theory Spec2Isabelle
  imports Complex_Main
begin

section \<open>The garden command: data model\<close>

text \<open>
  A shallow embedding of \<^verbatim>\<open>pkg/cmd/repo/garden/garden.go\<close>. Go's \<^verbatim>\<open>int\<close> is
  modelled as \<open>int\<close>: every counter of the file is bounded by the terminal size or by
  the number of commits, so no computation comes near the 64-bit limits. Go's
  \<^verbatim>\<open>float64\<close> values that occur (the density and the draws of the random source in
  [0,1)) are finite and only compared, so they are modelled as \<open>real\<close>. A Go string is
  a byte sequence, a \<open>string\<close> here. A panic of the Go runtime is a value of type
  \<open>panic\<close>, and a function that can panic returns \<open>panic + 'a\<close>.
\<close>

datatype panic =
  IntnNonPositive      \<comment> \<open>\<^verbatim>\<open>rand.Intn\<close> called with an argument \<open>\<le> 0\<close>\<close>
  | IndexOutOfRange    \<comment> \<open>an index expression outside its slice\<close>
  | SliceOutOfRange    \<comment> \<open>a slice expression \<^verbatim>\<open>s[0:n]\<close> longer than its string\<close>
  | ParseError         \<comment> \<open>\<^verbatim>\<open>panic(err)\<close> after \<^verbatim>\<open>strconv.ParseInt\<close>\<close>

text \<open>
  Modelled from the spec: \<^verbatim>\<open>ghrepo.Interface\<close> and \<^verbatim>\<open>ghrepo.FullName\<close> are not
  in the file; the spec calls the result the repository's canonical "owner/name" string.
\<close>

datatype repo = Repo (RepoOwner: string) (RepoName: string)

definition FullName :: "repo \<Rightarrow> string" where
  "FullName r = RepoOwner r @ ''/'' @ RepoName r"

record Geometry =
  Width :: int
  Height :: int
  Density :: real
  Repository :: repo

record Player =
  X :: int
  Y :: int
  playerChar :: string
  Geo :: Geometry
  ShoeMoistureContent :: int

record Commit =
  Email :: string
  Handle :: string
  Sha :: string
  commitChar :: string

record Cell =
  cellChar :: string
  StatusLine :: string

type_synonym Direction = int

definition DirUp :: Direction where "DirUp = 0"
definition DirDown :: Direction where "DirDown = 1"
definition DirLeft :: Direction where "DirLeft = 2"
definition DirRight :: Direction where "DirRight = 3"

section \<open>Player movement\<close>

text \<open>
  \<^verbatim>\<open>func (p *Player) move(direction Direction) bool\<close>: the player is updated in place,
  so the model returns the flag together with the new player. The \<^verbatim>\<open>switch\<close> has no
  default case: any other direction falls through to \<^verbatim>\<open>return true\<close> with the player
  untouched.
\<close>

definition move :: "Player \<Rightarrow> Direction \<Rightarrow> bool \<times> Player" where
  "move p direction =
    (if direction = DirUp then
       (if Y p = 0 then (False, p) else (True, p\<lparr>Y := Y p - 1\<rparr>))
     else if direction = DirDown then
       (if Y p = Height (Geo p) - 1 then (False, p) else (True, p\<lparr>Y := Y p + 1\<rparr>))
     else if direction = DirLeft then
       (if X p = 0 then (False, p) else (True, p\<lparr>X := X p - 1\<rparr>))
     else if direction = DirRight then
       (if X p = Width (Geo p) - 1 then (False, p) else (True, p\<lparr>X := X p + 1\<rparr>))
     else (True, p))"

text \<open>A sequence of calls of \<open>move\<close>, each on the player the previous one left.\<close>

fun moves :: "Player \<Rightarrow> Direction list \<Rightarrow> Player" where
  "moves p [] = p"
| "moves p (d # ds) = moves (snd (move p d)) ds"

text \<open>The player as \<^verbatim>\<open>gardenRun\<close> creates it: \<^verbatim>\<open>&Player{0, 0, utils.Bold("@"), geo, 0}\<close>.
  The bold glyph comes from a helper outside the file and is a parameter.\<close>

definition newPlayer :: "string \<Rightarrow> Geometry \<Rightarrow> Player" where
  "newPlayer glyph geo =
     \<lparr>X = 0, Y = 0, playerChar = glyph, Geo = geo, ShoeMoistureContent = 0\<rparr>"

definition inGrid :: "Player \<Rightarrow> bool" where
  "inGrid p \<longleftrightarrow> 0 \<le> X p \<and> X p \<le> Width (Geo p) - 1 \<and> 0 \<le> Y p \<and> Y p \<le> Height (Geo p) - 1"

definition blocked :: "Player \<Rightarrow> Direction \<Rightarrow> bool" where
  "blocked p d \<longleftrightarrow>
     (d = DirUp \<and> Y p = 0) \<or> (d = DirDown \<and> Y p = Height (Geo p) - 1) \<or>
     (d = DirLeft \<and> X p = 0) \<or> (d = DirRight \<and> X p = Width (Geo p) - 1)"

definition stepped :: "Player \<Rightarrow> Direction \<Rightarrow> Player" where
  "stepped p d =
     (if d = DirUp then p\<lparr>Y := Y p - 1\<rparr>
      else if d = DirDown then p\<lparr>Y := Y p + 1\<rparr>
      else if d = DirLeft then p\<lparr>X := X p - 1\<rparr>
      else p\<lparr>X := X p + 1\<rparr>)"

section \<open>Formatting helpers\<close>

text \<open>\<^verbatim>\<open>fmt.Sprintf("%d", n)\<close>: the decimal digits of \<open>n\<close>, with a minus sign when negative.\<close>

definition digitChar :: "nat \<Rightarrow> char" where
  "digitChar d = char_of (48 + d)"

fun decimal :: "nat \<Rightarrow> string" where
  "decimal n = (if n < 10 then [digitChar n] else decimal (n div 10) @ [digitChar (n mod 10)])"

declare decimal.simps [simp del]

definition fmtInt :: "int \<Rightarrow> string" where
  "fmtInt i = (if i < 0 then ''-'' @ decimal (nat (- i)) else decimal (nat i))"

text \<open>\<^verbatim>\<open>func RGB(r, g, b int, x string) string\<close>, the format
  \<^verbatim>\<open>"\033[38;2;%d;%d;%dm%s\033[0m"\<close>.\<close>

definition ESC :: char where
  "ESC = char_of (27 :: nat)"

definition RGB :: "int \<Rightarrow> int \<Rightarrow> int \<Rightarrow> string \<Rightarrow> string" where
  "RGB r g b x =
     ESC # ''[38;2;'' @ fmtInt r @ '';'' @ fmtInt g @ '';'' @ fmtInt b @ ''m'' @ x @ ESC # ''[0m''"

text \<open>\<^verbatim>\<open>strings.Contains(s, substr)\<close>.\<close>

fun HasPrefix :: "string \<Rightarrow> string \<Rightarrow> bool" where
  "HasPrefix s [] = True"
| "HasPrefix [] (c # sub) = False"
| "HasPrefix (a # s) (c # sub) = (a = c \<and> HasPrefix s sub)"

fun Contains :: "string \<Rightarrow> string \<Rightarrow> bool" where
  "Contains [] sub = (sub = [])"
| "Contains (a # s) sub = (HasPrefix (a # s) sub \<or> Contains s sub)"

section \<open>The random source\<close>

text \<open>
  \<^verbatim>\<open>math/rand\<close> belongs to the Go library, not to the repository. Its global source
  is a state of type \<open>'s\<close>; the three operations the file calls are parameters:
  \<open>Seed\<close> installs the state of a seed, \<open>Intn\<close> and \<open>Float64\<close> return a draw and the
  next state. Every function that draws takes the state and returns the new one.
  \<^verbatim>\<open>rand.Intn(n)\<close> panics for \<open>n \<le> 0\<close>; that check is written out where \<open>Intn\<close> is called.
\<close>

record 's Rand =
  Seed :: "int \<Rightarrow> 's"
  Intn :: "'s \<Rightarrow> int \<Rightarrow> int \<times> 's"
  Float64 :: "'s \<Rightarrow> real \<times> 's"

text \<open>What the library documents of the draws: \<open>Intn n\<close> lies in [0,n), \<open>Float64\<close> in [0,1).\<close>

definition inRange :: "'s Rand \<Rightarrow> bool" where
  "inRange R \<longleftrightarrow>
     (\<forall>s n. 0 < n \<longrightarrow> 0 \<le> fst (Intn R s n) \<and> fst (Intn R s n) < n) \<and>
     (\<forall>s. 0 \<le> fst (Float64 R s) \<and> fst (Float64 R s) < 1)"

text \<open>
  A concrete source to run the definitions on: a linear congruential generator on the
  state space [0, 65537).
\<close>

definition lcgNext :: "nat \<Rightarrow> nat" where
  "lcgNext s = (75 * s + 74) mod 65537"

definition lcg :: "nat Rand" where
  "lcg = \<lparr>Seed = (\<lambda>k. nat (k mod 65537)),
          Intn = (\<lambda>s n. (int (lcgNext s) mod n, lcgNext s)),
          Float64 = (\<lambda>s. (real (lcgNext s) / 65537, lcgNext s))\<rparr>"

section \<open>The garden generator\<close>

text \<open>Go's integer division truncates towards zero.\<close>

definition quot :: "int \<Rightarrow> int \<Rightarrow> int" where
  "quot a b = sgn a * sgn b * (\<bar>a\<bar> div \<bar>b\<bar>)"

text \<open>The fixed cells of \<^verbatim>\<open>plantGarden\<close>. Cells are never written after they are
  built, so the shared pointer \<^verbatim>\<open>grassCell\<close> is the value it points to.\<close>

definition grassCell :: Cell where
  "grassCell = \<lparr>cellChar = RGB 0 200 0 '','',
     StatusLine = ''You're standing on a patch of grass in a field of wildflowers.''\<rparr>"

definition treeCell :: Cell where
  "treeCell = \<lparr>cellChar = RGB 0 150 0 ''^'',
     StatusLine = ''You're standing under a tall, leafy tree.''\<rparr>"

definition streamCell :: "int \<Rightarrow> Cell" where
  "streamCell t = \<lparr>cellChar = RGB t t 255 ''#'',
     StatusLine = ''You're standing in a shallow stream. It's refreshing.''\<rparr>"

definition breezeCell :: Cell where
  "breezeCell = \<lparr>cellChar = RGB 0 200 0 '','',
     StatusLine = ''You're standing by a wildflower garden. There is a light breeze.''\<rparr>"

definition signCell :: "Geometry \<Rightarrow> Cell" where
  "signCell geo = \<lparr>cellChar = RGB 139 69 19 ''+'',
     StatusLine = ''You're standing in front of a weather-beaten sign that says ''
       @ FullName (Repository geo) @ ''.''\<rparr>"

definition flowerCell :: "Commit \<Rightarrow> Cell" where
  "flowerCell commit = \<lparr>cellChar = commitChar commit,
     StatusLine = ''You're standing at a flower called '' @ take 6 (Sha commit)
       @ '' planted by '' @ Handle commit @ ''.''\<rparr>"

text \<open>The variables of \<^verbatim>\<open>plantGarden\<close> that its loops update, and the random source.\<close>

record 's Planting =
  cellIx :: int
  streamIx :: int
  tint :: int
  rnd :: 's

text \<open>
  One pass through the body of the inner loop (lines 328 to 382): the cell appended to
  row \<open>y\<close> at column \<open>x\<close>, and the variables afterwards. The branches stand in the
  order of the source. \<^verbatim>\<open>commits[cellIx]\<close> panics outside the slice and
  \<^verbatim>\<open>commit.Sha[0:6]\<close> panics on a hash shorter than 6 bytes.
\<close>

definition plantCell ::
  "'s Rand \<Rightarrow> Commit list \<Rightarrow> Geometry \<Rightarrow> int \<Rightarrow> int \<Rightarrow> 's Planting \<Rightarrow> panic + (Cell \<times> 's Planting)" where
  "plantCell R commits geo y x st =
    (if (y > 0 \<and> (x = 0 \<or> x = Width geo - 1)) \<or> y = Height geo - 1 then
       Inr (treeCell, st)
     else if x = streamIx st then
       (let (f, r') = Float64 R (rnd st);
            s1 = streamIx st - 1;
            s2 = (if f < 0.5 then s1 + 1 else s1);
            s3 = (if s2 < 0 then 0 else s2);
            s4 = (if s3 > Width geo then Width geo else s3)
        in Inr (streamCell (tint st), st\<lparr>streamIx := s4, tint := tint st + 15, rnd := r'\<rparr>))
     else if y = 0 \<and> (x < quot (Width geo) 2 \<or> x > quot (Width geo) 2) then
       Inr (breezeCell, st)
     else if y = 0 \<and> x = quot (Width geo) 2 then
       Inr (signCell geo, st)
     else if cellIx st = int (length commits) - 1 then
       Inr (grassCell, st)
     else
       (let (chance, r') = Float64 R (rnd st) in
        if chance \<le> Density geo then
          (if cellIx st < 0 \<or> int (length commits) \<le> cellIx st then Inl IndexOutOfRange
           else
             (let commit = commits ! nat (cellIx st) in
              if length (Sha commit) < 6 then Inl SliceOutOfRange
              else Inr (flowerCell commit, st\<lparr>cellIx := cellIx st + 1, rnd := r'\<rparr>)))
        else Inr (grassCell, st\<lparr>rnd := r'\<rparr>)))"

text \<open>
  The inner loop \<^verbatim>\<open>for x := 0; x < geo.Width; x++\<close>, entered at column \<open>x\<close> with the
  cells \<open>row\<close> already appended. The row being filled is always the last row of
  \<^verbatim>\<open>garden\<close> (one row is appended per pass of the outer loop, which starts from the
  empty garden at \<open>y = 0\<close>), so it is built on its own and appended when complete.
\<close>

function plantRow ::
  "'s Rand \<Rightarrow> Commit list \<Rightarrow> Geometry \<Rightarrow> int \<Rightarrow> int \<Rightarrow> 's Planting \<Rightarrow> Cell list
     \<Rightarrow> panic + (Cell list \<times> 's Planting)" where
  "plantRow R commits geo y x st row =
    (if x < Width geo then
       (case plantCell R commits geo y x st of
          Inl e \<Rightarrow> Inl e
        | Inr (c, st') \<Rightarrow> plantRow R commits geo y (x + 1) st' (row @ [c]))
     else Inr (row, st))"
  by pat_completeness auto
termination
  by (relation "measure (\<lambda>(R, commits, geo, y, x, st, row). nat (Width geo - x))") auto

declare plantRow.simps [simp del]

text \<open>
  The outer loop \<^verbatim>\<open>for y := 0; y < geo.Height; y++\<close>, entered at row \<open>y\<close> with the rows
  \<open>garden\<close> already complete; the \<^verbatim>\<open>break\<close> of line 323 leaves it.
\<close>

function plantRows ::
  "'s Rand \<Rightarrow> Commit list \<Rightarrow> Geometry \<Rightarrow> int \<Rightarrow> 's Planting \<Rightarrow> Cell list list
     \<Rightarrow> panic + (Cell list list \<times> 's Planting)" where
  "plantRows R commits geo y st garden =
    (if y < Height geo then
       (if cellIx st = int (length commits) - 1 then Inr (garden, st)
        else
          (case plantRow R commits geo y 0 st [] of
             Inl e \<Rightarrow> Inl e
           | Inr (row, st') \<Rightarrow> plantRows R commits geo (y + 1) st' (garden @ [row])))
     else Inr (garden, st))"
  by pat_completeness auto
termination
  by (relation "measure (\<lambda>(R, commits, geo, y, st, garden). nat (Height geo - y))") auto

declare plantRows.simps [simp del]

text \<open>The variables as lines 314 to 321 initialise them, from the random state \<open>s\<close>.\<close>

definition startPlanting :: "'s Rand \<Rightarrow> Geometry \<Rightarrow> 's \<Rightarrow> panic + 's Planting" where
  "startPlanting R geo s =
    (if Width geo - 1 \<le> 0 then Inl IntnNonPositive
     else
       (let (r, s') = Intn R s (Width geo - 1);
            ix = (if r = quot (Width geo) 2 then r - 1 else r)
        in Inr \<lparr>cellIx = 0, streamIx = ix, tint = 0, rnd = s'\<rparr>))"

text \<open>\<^verbatim>\<open>func plantGarden(commits []*Commit, geo *Geometry) [][]*Cell\<close>, from the state
  \<open>s\<close> of the random source. Nothing draws from the source after the call, so the
  state it is left in is dropped.\<close>

definition plantGarden ::
  "'s Rand \<Rightarrow> 's \<Rightarrow> Commit list \<Rightarrow> Geometry \<Rightarrow> panic + Cell list list" where
  "plantGarden R s commits geo =
    (case startPlanting R geo s of
       Inl e \<Rightarrow> Inl e
     | Inr st \<Rightarrow>
        (case plantRows R commits geo 0 st [] of
           Inl e \<Rightarrow> Inl e
         | Inr (garden, st') \<Rightarrow> Inr garden))"

section \<open>Drawing and the game loop\<close>

text \<open>
  Only the player and the control flow are modelled: the writes to the terminal
  (\<^verbatim>\<open>fmt.Fprint(out, ...)\<close>) change neither. The update of the shoe moisture is the
  same statement in \<^verbatim>\<open>drawGarden\<close> (lines 400 to 412) and in the loop (lines 264 to 270).
\<close>

definition wetten :: "Cell \<Rightarrow> Player \<Rightarrow> Player" where
  "wetten cell player =
    (if Contains (StatusLine cell) ''stream'' then player\<lparr>ShoeMoistureContent := 5\<rparr>
     else if ShoeMoistureContent player > 0 then
       player\<lparr>ShoeMoistureContent := ShoeMoistureContent player - 1\<rparr>
     else player)"

text \<open>\<^verbatim>\<open>drawGarden\<close>: the two \<^verbatim>\<open>range\<close> loops, with the indices \<open>y\<close> and \<open>x\<close> counted along.\<close>

fun drawRow :: "Player \<Rightarrow> int \<Rightarrow> int \<Rightarrow> Cell list \<Rightarrow> Player" where
  "drawRow player y x [] = player"
| "drawRow player y x (gardenCell # rest) =
     drawRow (if X player = x \<and> Y player = y then wetten gardenCell player else player)
       y (x + 1) rest"

fun drawRows :: "Player \<Rightarrow> int \<Rightarrow> Cell list list \<Rightarrow> Player" where
  "drawRows player y [] = player"
| "drawRows player y (gardenRow # rest) = drawRows (drawRow player y 0 gardenRow) (y + 1) rest"

definition drawGarden :: "Cell list list \<Rightarrow> Player \<Rightarrow> Player" where
  "drawGarden garden player = drawRows player 0 garden"

text \<open>
  \<^verbatim>\<open>bytes.EqualFold\<close> belongs to the Go library. The program calls it with the one-byte
  read buffer and a one-letter ASCII string; on such arguments it compares the two
  bytes after ASCII case folding (a byte from 0x80 on is no valid UTF-8 and folds to
  no ASCII letter), which is what this definition computes.
\<close>

definition lower :: "char \<Rightarrow> char" where
  "lower c = (if 65 \<le> (of_char c :: nat) \<and> (of_char c :: nat) \<le> 90
              then char_of ((of_char c :: nat) + 32) else c)"

definition EqualFold :: "char list \<Rightarrow> char list \<Rightarrow> bool" where
  "EqualFold s t \<longleftrightarrow> list_all2 (\<lambda>a b. lower a = lower b) s t"

definition isLeft :: "char list \<Rightarrow> bool" where
  "isLeft b \<longleftrightarrow> EqualFold b ''a'' \<or> EqualFold b ''q'' \<or> EqualFold b ''h''"

definition isRight :: "char list \<Rightarrow> bool" where
  "isRight b \<longleftrightarrow> EqualFold b ''d'' \<or> EqualFold b ''l''"

definition isDown :: "char list \<Rightarrow> bool" where
  "isDown b \<longleftrightarrow> EqualFold b ''s'' \<or> EqualFold b ''j''"

definition isUp :: "char list \<Rightarrow> bool" where
  "isUp b \<longleftrightarrow> EqualFold b ''w'' \<or> EqualFold b ''z'' \<or> EqualFold b ''k''"

definition isQuit :: "char list \<Rightarrow> bool" where
  "isQuit b \<longleftrightarrow> EqualFold b ''q''"

text \<open>The branch of the \<^verbatim>\<open>switch\<close> of lines 215 to 228 that a buffer takes.\<close>

datatype branch = TakeLeft | TakeRight | TakeUp | TakeDown | TakeQuit | TakeDefault

definition classify :: "char list \<Rightarrow> branch" where
  "classify b =
    (if isLeft b then TakeLeft
     else if isRight b then TakeRight
     else if isUp b then TakeUp
     else if isDown b then TakeDown
     else if isQuit b then TakeQuit
     else TakeDefault)"

text \<open>\<^verbatim>\<open>garden[y][x]\<close>, with the bounds checks of the Go runtime.\<close>

definition cellAt :: "Cell list list \<Rightarrow> int \<Rightarrow> int \<Rightarrow> panic + Cell" where
  "cellAt garden y x =
    (if y < 0 \<or> int (length garden) \<le> y then Inl IndexOutOfRange
     else
       (let gardenRow = garden ! nat y in
        if x < 0 \<or> int (length gardenRow) \<le> x then Inl IndexOutOfRange
        else Inr (gardenRow ! nat x)))"

text \<open>
  One pass through the body of \<^verbatim>\<open>for { ... }\<close> after a successful read into \<open>b\<close>
  (lines 208 to 282): how the pass ends, and the player afterwards.
\<close>

datatype control = Continue | Break | Panic panic

definition loopBody :: "Cell list list \<Rightarrow> Player \<Rightarrow> char list \<Rightarrow> control \<times> Player" where
  "loopBody garden player b =
    (let oldX = X player; oldY = Y player;
         (moved, quitting, continuing, player) =
           (case classify b of
              TakeLeft \<Rightarrow> (fst (move player DirLeft), False, False, snd (move player DirLeft))
            | TakeRight \<Rightarrow> (fst (move player DirRight), False, False, snd (move player DirRight))
            | TakeUp \<Rightarrow> (fst (move player DirUp), False, False, snd (move player DirUp))
            | TakeDown \<Rightarrow> (fst (move player DirDown), False, False, snd (move player DirDown))
            | TakeQuit \<Rightarrow> (False, True, False, player)
            | TakeDefault \<Rightarrow> (False, False, True, player))
     in if \<not> moved \<or> continuing then (Continue, player)
        else if quitting then (Break, player)
        else
          (case cellAt garden (Y player) (X player) of
             Inl e \<Rightarrow> (Panic e, player)
           | Inr underPlayer \<Rightarrow>
              (case cellAt garden oldY oldX of
                 Inl e \<Rightarrow> (Panic e, player)
               | Inr previousCell \<Rightarrow> (Continue, wetten underPlayer player))))"

text \<open>
  The input stream as the sequence of results of \<^verbatim>\<open>opts.IO.In.Read(b)\<close>: the buffer
  after a successful read, or an error. The loop ends by returning the read error, by
  the \<^verbatim>\<open>break\<close> (farewell line, \<^verbatim>\<open>return nil\<close>) or by a panic; on a sequence with no
  error that none of these ends, it is still waiting in \<^verbatim>\<open>Read\<close>.
\<close>

datatype reading = Got "char list" | Failed

datatype ending = ReturnedReadError | ReturnedAfterQuit | Panicked panic | WaitingInRead

fun gameLoop :: "Cell list list \<Rightarrow> Player \<Rightarrow> reading list \<Rightarrow> ending \<times> Player" where
  "gameLoop garden player [] = (WaitingInRead, player)"
| "gameLoop garden player (Failed # rest) = (ReturnedReadError, player)"
| "gameLoop garden player (Got b # rest) =
     (case loopBody garden player b of
        (Continue, player') \<Rightarrow> gameLoop garden player' rest
      | (Break, player') \<Rightarrow> (ReturnedAfterQuit, player')
      | (Panic e, player') \<Rightarrow> (Panicked e, player'))"

text \<open>
  \<^verbatim>\<open>gardenRun\<close> from line 186 on, for a garden already planted: the new player, the
  first full draw, then the loop.
\<close>

definition stroll :: "string \<Rightarrow> Geometry \<Rightarrow> Cell list list \<Rightarrow> reading list \<Rightarrow> ending \<times> Player" where
  "stroll glyph geo garden input = gameLoop garden (drawGarden garden (newPlayer glyph geo)) input"

section \<open>Seed derivation\<close>

text \<open>
  \<^verbatim>\<open>strconv.ParseInt(s, 10, 64)\<close> of the Go library: an optional sign, then decimal
  digits only, and a value that fits 64 bits; \<open>None\<close> is its error.
\<close>

definition isDigit :: "char \<Rightarrow> bool" where
  "isDigit c \<longleftrightarrow> 48 \<le> (of_char c :: nat) \<and> (of_char c :: nat) \<le> 57"

definition digitVal :: "char \<Rightarrow> int" where
  "digitVal c = int (of_char c) - 48"

definition ParseInt :: "string \<Rightarrow> int option" where
  "ParseInt s =
    (let neg = (s \<noteq> [] \<and> hd s = CHR ''-'');
         ds = (if s \<noteq> [] \<and> (hd s = CHR ''-'' \<or> hd s = CHR ''+'') then tl s else s);
         v = foldl (\<lambda>acc c. 10 * acc + digitVal c) 0 ds
     in if ds = [] \<or> \<not> list_all isDigit ds then None
        else if neg then (if v > 2 ^ 63 then None else Some (- v))
        else (if v \<ge> 2 ^ 63 then None else Some v))"

text \<open>
  \<^verbatim>\<open>func computeSeed(seed string) int64\<close>. The argument is given as the code points
  that \<^verbatim>\<open>range seed\<close> yields, one per character (a code point is never negative).
  \<^verbatim>\<open>lol[0:10]\<close> panics when \<open>lol\<close> has fewer than 10 bytes.
\<close>

definition computeSeed :: "nat list \<Rightarrow> panic + int" where
  "computeSeed seed =
    (let lol = foldl (\<lambda>lol r. lol @ fmtInt (int r)) [] seed in
     if length lol < 10 then Inl SliceOutOfRange
     else
       (case ParseInt (take 10 lol) of
          None \<Rightarrow> Inl ParseError
        | Some result \<Rightarrow> Inr result))"

text \<open>The code points of a name of ASCII characters: each byte is its own code point.\<close>

definition runes :: "string \<Rightarrow> nat list" where
  "runes name = map of_char name"

section \<open>Properties of the planting state and of cells\<close>

text \<open>The cursor into the commit list is a valid index, and not past the last commit.\<close>

definition cursorOk :: "Commit list \<Rightarrow> 's Planting \<Rightarrow> bool" where
  "cursorOk cs st \<longleftrightarrow> 0 \<le> cellIx st \<and> cellIx st \<le> int (length cs) - 1"

text \<open>
  The kinds of cell are told apart by their status text: only the cell of lines 375 to
  378 starts with "You're standing at a flower called", only the cell of lines 336 to 339
  has the status text of the stream.
\<close>

definition isFlower :: "Cell \<Rightarrow> bool" where
  "isFlower c \<longleftrightarrow> HasPrefix (StatusLine c) ''You're standing at a flower called ''"

definition isStream :: "Cell \<Rightarrow> bool" where
  "isStream c \<longleftrightarrow> StatusLine c = ''You're standing in a shallow stream. It's refreshing.''"



text \<open>The stream column sits on a column the tree border claims, or past the last column.\<close>

definition parked :: "Geometry \<Rightarrow> int \<Rightarrow> bool" where
  "parked geo ix \<longleftrightarrow> ix = 0 \<or> ix = Width geo - 1 \<or> ix = Width geo"

text \<open>The cursor is non-negative and not past the last commit (it stays 0 with no commit).\<close>

definition cursorIn :: "Commit list \<Rightarrow> 's Planting \<Rightarrow> bool" where
  "cursorIn cs st \<longleftrightarrow> 0 \<le> cellIx st \<and> cellIx st \<le> max 0 (int (length cs) - 1)"

text \<open>The flower cells of the commits before the cursor, in the order of the commit list.\<close>

definition flowersTo :: "Commit list \<Rightarrow> 's Planting \<Rightarrow> Cell list" where
  "flowersTo cs st = map flowerCell (take (nat (cellIx st)) cs)"

text \<open>Every row of \<open>g\<close> was begun with a number of flowers in the rows above it that
  differs from the number of commits minus 1.\<close>

definition started :: "Commit list \<Rightarrow> Cell list list \<Rightarrow> bool" where
  "started cs g \<longleftrightarrow>
     (\<forall>y < length g. int (length (filter isFlower (concat (take y g)))) \<noteq> int (length cs) - 1)"

text \<open>The condition of line 328: the tree border claims column \<open>x\<close> of row \<open>y\<close>.\<close>

definition treeClaims :: "Geometry \<Rightarrow> int \<Rightarrow> int \<Rightarrow> bool" where
  "treeClaims geo y x \<longleftrightarrow> (y > 0 \<and> (x = 0 \<or> x = Width geo - 1)) \<or> y = Height geo - 1"

section \<open>The stream layout in the words of the specification\<close>

text \<open>
  Section 4.2, rule 2, for a grid of width \<open>w\<close>: the starting column is the draw \<open>r\<close>
  from [0, w-2], shifted left by one if it equals w/2 (integer division); after a
  stream cell the column is decremented by 1, incremented back by 1 when the draw \<open>d\<close>
  from [0,1) falls in the lower half, and clamped to [0, w].
\<close>

definition specStart :: "int \<Rightarrow> int \<Rightarrow> int" where
  "specStart w r = (if r = w div 2 then r - 1 else r)"

definition specWalk :: "int \<Rightarrow> int \<Rightarrow> real \<Rightarrow> int" where
  "specWalk w ix d = min w (max 0 ((ix - 1) + (if d < 1 / 2 then 1 else 0)))"

section \<open>Seed derivation in the words of the specification\<close>

text \<open>
  Section 4.1: the decimal code-point values of the characters, concatenated into one
  digit string, and the base-10 value of a digit string, digit by digit with its
  power of ten.
\<close>

definition codePointDigits :: "nat list \<Rightarrow> string" where
  "codePointDigits seed = concat (map decimal seed)"

fun decimalValue :: "string \<Rightarrow> int" where
  "decimalValue [] = 0"
| "decimalValue (c # cs) = digitVal c * 10 ^ length cs + decimalValue cs"

section \<open>Seeding, and runs that see the same draws\<close>

text \<open>
  \<^verbatim>\<open>gardenRun\<close>, line 162 and line 188: \<^verbatim>\<open>rand.Seed(seed)\<close>, then the garden is planted.
  The calls between the two lines (terminal size, fetching the commits) are outside
  the file; the global source is drawn from in \<^verbatim>\<open>plantGarden\<close> only.
\<close>

definition seededGarden ::
  "'s Rand \<Rightarrow> int \<Rightarrow> Commit list \<Rightarrow> Geometry \<Rightarrow> panic + Cell list list" where
  "seededGarden R seed commits geo = plantGarden R (Seed R seed) commits geo"

text \<open>
  Two random sources, each in a run of its own, deliver the same draws from states that
  \<open>rel\<close> relates, and leave related states.
\<close>

definition sameDraws :: "'a Rand \<Rightarrow> 'b Rand \<Rightarrow> ('a \<Rightarrow> 'b \<Rightarrow> bool) \<Rightarrow> bool" where
  "sameDraws R1 R2 rel \<longleftrightarrow>
     (\<forall>s1 s2. rel s1 s2 \<longrightarrow>
        (\<forall>n. fst (Intn R1 s1 n) = fst (Intn R2 s2 n) \<and>
             rel (snd (Intn R1 s1 n)) (snd (Intn R2 s2 n))) \<and>
        fst (Float64 R1 s1) = fst (Float64 R2 s2) \<and>
        rel (snd (Float64 R1 s1)) (snd (Float64 R2 s2)))"

definition samePlanting :: "('a \<Rightarrow> 'b \<Rightarrow> bool) \<Rightarrow> 'a Planting \<Rightarrow> 'b Planting \<Rightarrow> bool" where
  "samePlanting rel st1 st2 \<longleftrightarrow>
     cellIx st1 = cellIx st2 \<and> streamIx st1 = streamIx st2 \<and> tint st1 = tint st2 \<and>
     rel (rnd st1) (rnd st2)"

definition sameOutcome ::
  "('a \<Rightarrow> 'b \<Rightarrow> bool) \<Rightarrow> panic + ('c \<times> 'a Planting) \<Rightarrow> panic + ('c \<times> 'b Planting) \<Rightarrow> bool" where
  "sameOutcome rel r1 r2 \<longleftrightarrow>
     (case r1 of
        Inl e1 \<Rightarrow> r2 = Inl e1
      | Inr (v1, st1) \<Rightarrow> (case r2 of Inl e2 \<Rightarrow> False
           | Inr (v2, st2) \<Rightarrow> v1 = v2 \<and> samePlanting rel st1 st2))"

text \<open>The source \<open>lcg\<close> with a counter of the draws made: another state space, the same draws.\<close>

definition counted :: "(nat \<times> nat) Rand" where
  "counted = \<lparr>Seed = (\<lambda>k. (Seed lcg k, 0)),
              Intn = (\<lambda>(s, c) n. (fst (Intn lcg s n), (snd (Intn lcg s n), c + 1))),
              Float64 = (\<lambda>(s, c). (fst (Float64 lcg s), (snd (Float64 lcg s), c + 1)))\<rparr>"

section \<open>Properties of the player and of the loop body\<close>

text \<open>The shoe moisture lies in [0,5].\<close>

definition damp :: "Player \<Rightarrow> bool" where
  "damp p \<longleftrightarrow> 0 \<le> ShoeMoistureContent p \<and> ShoeMoistureContent p \<le> 5"

text \<open>The direction that a branch of the \<^verbatim>\<open>switch\<close> moves in, and what the loop body does
  after \<^verbatim>\<open>moved = player.move(d)\<close> (lines 230 to 270).\<close>

definition direction :: "branch \<Rightarrow> Direction option" where
  "direction br = (case br of TakeLeft \<Rightarrow> Some DirLeft | TakeRight \<Rightarrow> Some DirRight
     | TakeUp \<Rightarrow> Some DirUp | TakeDown \<Rightarrow> Some DirDown | _ \<Rightarrow> None)"

definition walk :: "Cell list list \<Rightarrow> Player \<Rightarrow> Direction \<Rightarrow> control \<times> Player" where
  "walk garden p d =
    (if \<not> fst (move p d) then (Continue, p)
     else
       (case cellAt garden (Y (snd (move p d))) (X (snd (move p d))) of
          Inl e \<Rightarrow> (Panic e, snd (move p d))
        | Inr underPlayer \<Rightarrow>
           (case cellAt garden (Y p) (X p) of
              Inl e \<Rightarrow> (Panic e, snd (move p d))
            | Inr previousCell \<Rightarrow> (Continue, wetten underPlayer (snd (move p d))))))"

section \<open>Small inputs to run the definitions on\<close>

definition geo32 :: Geometry where
  "geo32 = \<lparr>Width = 3, Height = 2, Density = 0.3, Repository = Repo ''cli'' ''cli''\<rparr>"

definition walker :: Player where
  "walker = newPlayer ''@'' geo32"

definition geo55 :: Geometry where
  "geo55 = \<lparr>Width = 5, Height = 5, Density = 0.3, Repository = Repo ''cli'' ''cli''\<rparr>"

definition planted :: "string \<Rightarrow> Commit" where
  "planted sha = \<lparr>Email = ''mona@github.com'', Handle = ''mona'', Sha = sha, commitChar = ''*''\<rparr>"

definition threeCommits :: "Commit list" where
  "threeCommits = [planted ''a1b2c3d4'', planted ''b2c3d4e5'', planted ''c3d4e5f6'']"

text \<open>The gardens that seeds 0 and 3 of \<open>lcg\<close> plant for \<open>threeCommits\<close> on \<open>geo55\<close>: the
  first stops after three rows, the second has all five.\<close>

definition garden0 :: "Cell list list" where
  "garden0 =
    [[breezeCell, streamCell 0, signCell geo55, breezeCell, breezeCell],
     [treeCell, streamCell 15, grassCell, flowerCell (planted ''a1b2c3d4''), treeCell],
     [treeCell, streamCell 30, flowerCell (planted ''b2c3d4e5''), grassCell, treeCell]]"

definition garden3 :: "Cell list list" where
  "garden3 =
    [[breezeCell, breezeCell, signCell geo55, streamCell 0, breezeCell],
     [treeCell, grassCell, flowerCell (planted ''a1b2c3d4''), streamCell 15, treeCell],
     [treeCell, grassCell, grassCell, streamCell 30, treeCell],
     [treeCell, grassCell, streamCell 45, grassCell, treeCell],
     [treeCell, treeCell, treeCell, treeCell, treeCell]]"

text \<open>Seed 2 puts the stream of row 0 at column 0; these are the variables when row 1 begins.\<close>

definition parkedAtZero :: "nat Planting" where
  "parkedAtZero = \<lparr>cellIx = 0, streamIx = 0, tint = 15, rnd = 16874\<rparr>"

text \<open>The variables as seed 0 initialises them on \<open>geo55\<close>: the draw 2 equals 5/2 and is
  shifted to column 1.\<close>

definition seed0Start :: "nat Planting" where
  "seed0Start = \<lparr>cellIx = 0, streamIx = 1, tint = 0, rnd = 74\<rparr>"

text \<open>A repository with a single commit: the generator returns the empty garden.\<close>

definition oneCommit :: "Commit list" where
  "oneCommit = [planted ''a1b2c3d4'']"

section \<open>Movement: theorems\<close>

lemmas Dir_defs = DirUp_def DirDown_def DirLeft_def DirRight_def

lemma move_Geo: "Geo (snd (move p d)) = Geo p"
  by (simp add: move_def)

lemma move_inGrid: "inGrid p \<Longrightarrow> inGrid (snd (move p d))"
  by (auto simp: move_def inGrid_def)

lemma moves_Geo: "Geo (moves p ds) = Geo p"
  by (induction ds arbitrary: p) (simp_all add: move_Geo)

lemma moves_inGrid: "inGrid p \<Longrightarrow> inGrid (moves p ds)"
  by (induction ds arbitrary: p) (simp_all add: move_inGrid)

lemma move_four:
  assumes "d \<in> {DirUp, DirDown, DirLeft, DirRight}"
  shows "move p d = (if blocked p d then (False, p) else (True, stepped p d))"
  using assms by (auto simp: move_def blocked_def stepped_def Dir_defs)

lemma stepped_changes: "stepped p d \<noteq> p"
proof
  assume eq: "stepped p d = p"
  have "X (stepped p d) \<noteq> X p \<or> Y (stepped p d) \<noteq> Y p"
    by (simp add: stepped_def)
  with eq show False by simp
qed

text \<open>
  Claim C5. For each of the four directions and a player inside the grid, \<open>move\<close>
  returns true exactly when the position changed; it returns false and leaves the
  player as it is exactly when the player stands on the edge the direction points to
  (Y = 0 for Up, Y = height-1 for Down, X = 0 for Left, X = width-1 for Right);
  otherwise the one coordinate of that direction changes by exactly 1. Hence every
  sequence of moves from the start position (0,0) of a grid with at least one row and
  one column stays inside [0,width-1] x [0,height-1].
\<close>

theorem move_bounded:
  "inGrid p \<Longrightarrow> d \<in> {DirUp, DirDown, DirLeft, DirRight} \<Longrightarrow>
     (fst (move p d) \<longleftrightarrow> (X (snd (move p d)), Y (snd (move p d))) \<noteq> (X p, Y p)) \<and>
     (fst (move p d) \<longleftrightarrow> \<not> blocked p d) \<and>
     (blocked p d \<longrightarrow> snd (move p d) = p) \<and>
     (\<not> blocked p d \<longrightarrow>
        snd (move p d) =
          (if d = DirUp then p\<lparr>Y := Y p - 1\<rparr>
           else if d = DirDown then p\<lparr>Y := Y p + 1\<rparr>
           else if d = DirLeft then p\<lparr>X := X p - 1\<rparr>
           else p\<lparr>X := X p + 1\<rparr>)) \<and>
     (\<forall>ds. inGrid (moves (newPlayer glyph (Geo p)) ds))"
proof -
  assume p: "inGrid p" and d: "d \<in> {DirUp, DirDown, DirLeft, DirRight}"
  have m: "move p d = (if blocked p d then (False, p) else (True, stepped p d))"
    by (rule move_four [OF d])
  have 1: "fst (move p d) \<longleftrightarrow> (X (snd (move p d)), Y (snd (move p d))) \<noteq> (X p, Y p)"
    using d by (auto simp: m stepped_def Dir_defs)
  have 2: "fst (move p d) \<longleftrightarrow> \<not> blocked p d"
    by (simp add: m)
  have 3: "blocked p d \<longrightarrow> snd (move p d) = p"
    by (simp add: m)
  have 4: "\<not> blocked p d \<longrightarrow>
        snd (move p d) =
          (if d = DirUp then p\<lparr>Y := Y p - 1\<rparr>
           else if d = DirDown then p\<lparr>Y := Y p + 1\<rparr>
           else if d = DirLeft then p\<lparr>X := X p - 1\<rparr>
           else p\<lparr>X := X p + 1\<rparr>)"
    by (simp add: m stepped_def)
  have 5: "\<forall>ds. inGrid (moves (newPlayer glyph (Geo p)) ds)"
  proof
    fix ds
    from p have "inGrid (newPlayer glyph (Geo p))"
      by (simp add: inGrid_def newPlayer_def)
    then show "inGrid (moves (newPlayer glyph (Geo p)) ds)"
      by (rule moves_inGrid)
  qed
  from 1 2 3 4 5 show ?thesis by blast
qed

text \<open>On a grid of 3 columns and 2 rows: from (0,0) Right succeeds and Left is blocked.\<close>

theorem move_bounded_witness:
  "inGrid walker \<and> DirRight \<in> {DirUp, DirDown, DirLeft, DirRight} \<and>
   \<not> blocked walker DirRight \<and> fst (move walker DirRight) \<and>
   snd (move walker DirRight) = walker\<lparr>X := 1\<rparr> \<and>
   blocked walker DirLeft \<and> \<not> fst (move walker DirLeft) \<and> snd (move walker DirLeft) = walker \<and>
   inGrid (moves (newPlayer ''@'' (Geo walker))
      [DirDown, DirDown, DirRight, DirRight, DirRight, DirUp, DirUp, DirLeft])"
proof -
  have g: "inGrid walker"
    by (simp add: inGrid_def walker_def newPlayer_def geo32_def)
  have r: "DirRight \<in> {DirUp, DirDown, DirLeft, DirRight}"
    and l: "DirLeft \<in> {DirUp, DirDown, DirLeft, DirRight}"
    by simp_all
  have br: "\<not> blocked walker DirRight" and bl: "blocked walker DirLeft"
    by (simp_all add: blocked_def walker_def newPlayer_def geo32_def Dir_defs)
  have x: "X walker = 0"
    by (simp add: walker_def newPlayer_def)
  note R = move_bounded [OF g r, of "''@''"]
  note L = move_bounded [OF g l, of "''@''"]
  from R br have 1: "fst (move walker DirRight)" by blast
  from R br have 2: "snd (move walker DirRight) = walker\<lparr>X := 1\<rparr>"
    by (simp add: Dir_defs x)
  from L bl have 3: "\<not> fst (move walker DirLeft)" by blast
  from L bl have 4: "snd (move walker DirLeft) = walker" by blast
  from R have 5: "inGrid (moves (newPlayer ''@'' (Geo walker))
      [DirDown, DirDown, DirRight, DirRight, DirRight, DirUp, DirUp, DirLeft])" by blast
  from g r br bl 1 2 3 4 5 show ?thesis by blast
qed

section \<open>Evaluating the definitions\<close>

lemma digitChar_simps:
  "digitChar 0 = CHR ''0''" "digitChar 1 = CHR ''1''" "digitChar (Suc 0) = CHR ''1''"
  "digitChar 2 = CHR ''2''" "digitChar 3 = CHR ''3''" "digitChar 4 = CHR ''4''"
  "digitChar 5 = CHR ''5''" "digitChar 6 = CHR ''6''" "digitChar 7 = CHR ''7''"
  "digitChar 8 = CHR ''8''" "digitChar 9 = CHR ''9''"
  by code_simp+

lemmas plant_eval =
  plantGarden_def startPlanting_def lcg_def lcgNext_def quot_def
  plantRows.simps plantRow.simps plantCell_def

section \<open>The two loops of the generator: proof rules\<close>

text \<open>
  An invariant \<open>P\<close> of the inner loop, over the column, the variables and the row so
  far, holds when the loop is left, at column \<open>max x (Width geo)\<close>.
\<close>

lemma plantRow_rule:
  assumes "plantRow R cs geo y x st row = Inr (row', st')"
    and "P x st row"
    and "\<And>x st row c st1. x < Width geo \<Longrightarrow> P x st row \<Longrightarrow>
           plantCell R cs geo y x st = Inr (c, st1) \<Longrightarrow> P (x + 1) st1 (row @ [c])"
  shows "P (max x (Width geo)) st' row'"
  using assms
proof (induction R cs geo y x st row rule: plantRow.induct)
  case (1 R commits geo y x st row)
  show ?case
  proof (cases "x < Width geo")
    case True
    with "1.prems"(1) obtain c st1 where
      c: "plantCell R commits geo y x st = Inr (c, st1)" and
      r: "plantRow R commits geo y (x + 1) st1 (row @ [c]) = Inr (row', st')"
      by (subst (asm) plantRow.simps) (auto split: sum.splits)
    have "P (x + 1) st1 (row @ [c])"
      by (rule "1.prems"(3) [OF True "1.prems"(2) c])
    then have "P (max (x + 1) (Width geo)) st' row'"
      by (rule "1.IH" [OF True c refl r]) (rule "1.prems"(3), assumption+)
    with True show ?thesis by (simp add: max_def)
  next
    case False
    with "1.prems"(1) have "row' = row" "st' = st"
      by (subst (asm) plantRow.simps, simp)+
    with False "1.prems"(2) show ?thesis by (simp add: max_def)
  qed
qed

text \<open>A panic of the inner loop is the panic of one cell, reached with the invariant.\<close>

lemma plantRow_panic_rule:
  assumes "plantRow R cs geo y x st row = Inl e"
    and "P x st"
    and "\<And>x st c st1. x < Width geo \<Longrightarrow> P x st \<Longrightarrow>
           plantCell R cs geo y x st = Inr (c, st1) \<Longrightarrow> P (x + 1) st1"
  shows "\<exists>x1 st1. x1 < Width geo \<and> P x1 st1 \<and> plantCell R cs geo y x1 st1 = Inl e"
  using assms
proof (induction R cs geo y x st row rule: plantRow.induct)
  case (1 R commits geo y x st row)
  from "1.prems"(1) have lt: "x < Width geo"
    by (subst (asm) plantRow.simps) (simp split: if_splits)
  show ?case
  proof (cases "plantCell R commits geo y x st")
    case (Inl e')
    with lt "1.prems"(1) have "e' = e"
      by (subst (asm) plantRow.simps) simp
    with Inl lt "1.prems"(2) show ?thesis by blast
  next
    case (Inr p)
    obtain c st1 where p: "p = (c, st1)" by (cases p)
    from Inr p lt "1.prems"(1) have r: "plantRow R commits geo y (x + 1) st1 (row @ [c]) = Inl e"
      by (subst (asm) plantRow.simps) simp
    have "P (x + 1) st1"
      by (rule "1.prems"(3) [OF lt "1.prems"(2) Inr [unfolded p]])
    then show ?thesis
      by (rule "1.IH" [OF lt Inr p [symmetric] r]) (rule "1.prems"(3), assumption+)
  qed
qed

text \<open>
  An invariant of the outer loop holds when it is left, at a row \<open>y'\<close> that is either
  the height or the row at which the \<^verbatim>\<open>break\<close> was taken.
\<close>

lemma plantRows_rule:
  assumes "plantRows R cs geo y st g = Inr (g', st')"
    and "P y st g"
    and "\<And>y st g row st1. y < Height geo \<Longrightarrow> cellIx st \<noteq> int (length cs) - 1 \<Longrightarrow> P y st g \<Longrightarrow>
           plantRow R cs geo y 0 st [] = Inr (row, st1) \<Longrightarrow> P (y + 1) st1 (g @ [row])"
  shows "\<exists>y'. y \<le> y' \<and> P y' st' g' \<and> (y' < Height geo \<longrightarrow> cellIx st' = int (length cs) - 1)"
  using assms
proof (induction R cs geo y st g rule: plantRows.induct)
  case (1 R commits geo y st garden)
  let ?stop = "cellIx st = int (length commits) - 1"
  show ?case
  proof (cases "y < Height geo \<and> \<not> ?stop")
    case True
    with "1.prems"(1) obtain row st1 where
      c: "plantRow R commits geo y 0 st [] = Inr (row, st1)" and
      r: "plantRows R commits geo (y + 1) st1 (garden @ [row]) = Inr (g', st')"
      by (subst (asm) plantRows.simps) (auto split: sum.splits)
    from True have lt: "y < Height geo" and ns: "\<not> ?stop" by simp_all
    have "P (y + 1) st1 (garden @ [row])"
      by (rule "1.prems"(3) [OF lt ns "1.prems"(2) c])
    then have "\<exists>y'. y + 1 \<le> y' \<and> P y' st' g' \<and>
        (y' < Height geo \<longrightarrow> cellIx st' = int (length commits) - 1)"
      by (rule "1.IH" [OF lt ns c refl r]) (rule "1.prems"(3), assumption+)
    then obtain y' where "y + 1 \<le> y'" "P y' st' g'"
      "y' < Height geo \<longrightarrow> cellIx st' = int (length commits) - 1"
      by blast
    then show ?thesis by (intro exI [of _ y']) simp
  next
    case False
    with "1.prems"(1) have "g' = garden" "st' = st"
      by (subst (asm) plantRows.simps, simp split: if_splits)+
    with False "1.prems"(2) show ?thesis by (intro exI [of _ y]) auto
  qed
qed

lemma plantRows_panic_rule:
  assumes "plantRows R cs geo y st g = Inl e"
    and "P y st"
    and "\<And>y st row st1. y < Height geo \<Longrightarrow> cellIx st \<noteq> int (length cs) - 1 \<Longrightarrow> P y st \<Longrightarrow>
           plantRow R cs geo y 0 st [] = Inr (row, st1) \<Longrightarrow> P (y + 1) st1"
  shows "\<exists>y1 st1. y1 < Height geo \<and> P y1 st1 \<and> plantRow R cs geo y1 0 st1 [] = Inl e"
  using assms
proof (induction R cs geo y st g rule: plantRows.induct)
  case (1 R commits geo y st garden)
  from "1.prems"(1) have lt: "y < Height geo" and ns: "cellIx st \<noteq> int (length commits) - 1"
    by (subst (asm) plantRows.simps, simp split: if_splits)+
  show ?case
  proof (cases "plantRow R commits geo y 0 st []")
    case (Inl e')
    with lt ns "1.prems"(1) have "e' = e"
      by (subst (asm) plantRows.simps) simp
    with Inl lt "1.prems"(2) show ?thesis by blast
  next
    case (Inr p)
    obtain row st1 where p: "p = (row, st1)" by (cases p)
    from Inr p lt ns "1.prems"(1)
    have r: "plantRows R commits geo (y + 1) st1 (garden @ [row]) = Inl e"
      by (subst (asm) plantRows.simps) simp
    have "P (y + 1) st1"
      by (rule "1.prems"(3) [OF lt ns "1.prems"(2) Inr [unfolded p]])
    then show ?thesis
      by (rule "1.IH" [OF lt ns Inr p [symmetric] r]) (rule "1.prems"(3), assumption+)
  qed
qed

lemma startPlanting_cellIx:
  "startPlanting R geo s = Inr st \<Longrightarrow> cellIx st = 0"
  by (auto simp: startPlanting_def Let_def split: if_splits prod.splits)

lemma startPlanting_panic:
  "startPlanting R geo s = Inl e \<Longrightarrow> e = IntnNonPositive"
  by (auto simp: startPlanting_def Let_def split: if_splits prod.splits)

section \<open>The commit cursor stays inside the commit list\<close>

lemma plantCell_cursorOk:
  assumes "plantCell R cs geo y x st = Inr (c, st1)" and "cursorOk cs st"
  shows "cursorOk cs st1"
  using assms
  by (auto simp: plantCell_def cursorOk_def Let_def split: if_splits prod.splits)

lemma plantCell_index_ok:
  assumes "cursorOk cs st"
  shows "plantCell R cs geo y x st \<noteq> Inl IndexOutOfRange"
  using assms
  by (auto simp: plantCell_def cursorOk_def Let_def split: if_splits prod.splits)

lemma plantRow_cursorOk:
  assumes "plantRow R cs geo y x st row = Inr (row', st')" and "cursorOk cs st"
  shows "cursorOk cs st'"
  by (rule plantRow_rule [OF assms(1), where P = "\<lambda>x st row. cursorOk cs st"])
     (simp_all add: assms(2) plantCell_cursorOk)

lemma plantRow_index_ok:
  assumes "cursorOk cs st"
  shows "plantRow R cs geo y x st row \<noteq> Inl IndexOutOfRange"
proof
  assume "plantRow R cs geo y x st row = Inl IndexOutOfRange"
  then have "\<exists>x1 st1. x1 < Width geo \<and> cursorOk cs st1 \<and>
      plantCell R cs geo y x1 st1 = Inl IndexOutOfRange"
    by (rule plantRow_panic_rule) (simp_all add: assms plantCell_cursorOk)
  then show False
    using plantCell_index_ok by blast
qed

lemma plantRows_index_ok:
  assumes "cursorOk cs st"
  shows "plantRows R cs geo y st g \<noteq> Inl IndexOutOfRange"
proof
  assume "plantRows R cs geo y st g = Inl IndexOutOfRange"
  then have "\<exists>y1 st1. y1 < Height geo \<and> cursorOk cs st1 \<and>
      plantRow R cs geo y1 0 st1 [] = Inl IndexOutOfRange"
    by (rule plantRows_panic_rule) (simp_all add: assms plantRow_cursorOk)
  then show False
    using plantRow_index_ok by blast
qed

text \<open>
  Claim C9. With at least one commit, no access \<^verbatim>\<open>commits[cellIx]\<close> of the generator
  is out of bounds: the cursor starts at 0, the flower branch runs only while it
  differs from \<open>length - 1\<close>, and it grows by 1 per flower, so it is below the length
  whenever it is used. The hypothesis is needed: with no commit the guard compares the
  cursor 0 with -1, and a cell of the interior whose density draw succeeds indexes the
  empty list.
\<close>

theorem commit_index_in_bounds:
  "(cs \<noteq> [] \<longrightarrow> plantGarden R s cs geo \<noteq> Inl IndexOutOfRange) \<and>
   (0 < y \<and> y \<noteq> Height geo - 1 \<and> x \<noteq> 0 \<and> x \<noteq> Width geo - 1 \<and> x \<noteq> streamIx st \<and>
    cellIx st = 0 \<and> fst (Float64 R (rnd st)) \<le> Density geo \<longrightarrow>
      plantCell R [] geo y x st = Inl IndexOutOfRange)"
proof (intro conjI impI)
  assume ne: "cs \<noteq> []"
  show "plantGarden R s cs geo \<noteq> Inl IndexOutOfRange"
  proof (cases "startPlanting R geo s")
    case (Inl e)
    then show ?thesis
      by (auto simp: plantGarden_def dest: startPlanting_panic)
  next
    case (Inr st0)
    with ne have "cursorOk cs st0"
      by (cases cs) (auto simp: cursorOk_def dest: startPlanting_cellIx)
    then have "plantRows R cs geo 0 st0 [] \<noteq> Inl IndexOutOfRange"
      by (rule plantRows_index_ok)
    with Inr show ?thesis
      by (auto simp: plantGarden_def split: sum.splits)
  qed
next
  assume "0 < y \<and> y \<noteq> Height geo - 1 \<and> x \<noteq> 0 \<and> x \<noteq> Width geo - 1 \<and> x \<noteq> streamIx st \<and>
    cellIx st = 0 \<and> fst (Float64 R (rnd st)) \<le> Density geo"
  then show "plantCell R [] geo y x st = Inl IndexOutOfRange"
    by (auto simp: plantCell_def Let_def split: prod.splits)
qed

text \<open>
  Three commits on a 5 x 5 grid are planted without a panic; on the same grid with no
  commit, the cell (1,1) panics when its draw succeeds, and so does a whole run.
\<close>

theorem commit_index_in_bounds_witness:
  "threeCommits \<noteq> [] \<and> plantGarden lcg 0 threeCommits geo55 \<noteq> Inl IndexOutOfRange \<and>
   fst (Float64 lcg 7) \<le> Density geo55 \<and>
   plantCell lcg [] geo55 1 1 \<lparr>cellIx = 0, streamIx = 3, tint = 0, rnd = 7\<rparr> = Inl IndexOutOfRange \<and>
   plantGarden lcg 7 [] geo55 = Inl IndexOutOfRange"
proof -
  have ne: "threeCommits \<noteq> []"
    by (simp add: threeCommits_def)
  have draw: "fst (Float64 lcg 7) \<le> Density geo55"
    by (simp add: lcg_def lcgNext_def geo55_def)
  let ?st = "\<lparr>cellIx = 0, streamIx = 3, tint = 0, rnd = (7::nat)\<rparr>"
  have hyp: "(0::int) < 1 \<and> 1 \<noteq> Height geo55 - 1 \<and> (1::int) \<noteq> 0 \<and> 1 \<noteq> Width geo55 - 1 \<and>
      1 \<noteq> streamIx ?st \<and> cellIx ?st = 0 \<and> fst (Float64 lcg (rnd ?st)) \<le> Density geo55"
    using draw by (simp add: geo55_def)
  note T = commit_index_in_bounds [where cs = threeCommits and R = lcg and s = 0
      and geo = geo55 and y = 1 and x = 1 and st = ?st]
  from T ne have 1: "plantGarden lcg 0 threeCommits geo55 \<noteq> Inl IndexOutOfRange"
    by blast
  from T hyp
  have 2: "plantCell lcg [] geo55 1 1 ?st = Inl IndexOutOfRange"
    by blast
  have 3: "plantGarden lcg 7 [] geo55 = Inl IndexOutOfRange"
    by (simp add: plant_eval geo55_def)
  from ne 1 draw 2 3 show ?thesis by blast
qed

section \<open>The cells of a row and the rows of a garden\<close>






lemma garden0_planted: "plantGarden lcg 0 threeCommits geo55 = Inr garden0"
  by (simp add: plant_eval geo55_def threeCommits_def planted_def garden0_def)

lemma garden3_planted: "plantGarden lcg 3 threeCommits geo55 = Inr garden3"
  by (simp add: plant_eval geo55_def threeCommits_def planted_def garden3_def)

section \<open>The tree border\<close>




section \<open>A stream column on the border\<close>

lemma not_isStream:
  "\<not> isStream treeCell" "\<not> isStream breezeCell" "\<not> isStream (signCell geo)"
  "\<not> isStream grassCell" "\<not> isStream (flowerCell commit)"
  by (simp_all add: isStream_def streamCell_def breezeCell_def signCell_def grassCell_def
      flowerCell_def treeCell_def)

lemma isStream_streamCell: "isStream (streamCell t)"
  by (simp add: isStream_def streamCell_def)

lemma plantCell_parked:
  assumes "plantCell R cs geo y x st = Inr (c, st1)" and "1 \<le> y" and "x < Width geo"
    and "parked geo (streamIx st)"
  shows "streamIx st1 = streamIx st \<and> \<not> isStream c"
  using assms
  by (auto simp: plantCell_def parked_def Let_def not_isStream split: if_splits prod.splits)

lemma plantRow_parked:
  assumes "plantRow R cs geo y x st row = Inr (row', st')" and "1 \<le> y"
    and "parked geo (streamIx st)" and "\<forall>c \<in> set row. \<not> isStream c"
  shows "streamIx st' = streamIx st \<and> (\<forall>c \<in> set row'. \<not> isStream c)"
  by (rule plantRow_rule [OF assms(1),
        where P = "\<lambda>x st1 row. streamIx st1 = streamIx st \<and> (\<forall>c \<in> set row. \<not> isStream c)"])
     (use assms(2-) in \<open>auto dest: plantCell_parked\<close>)

lemma plantRows_parked:
  assumes "plantRows R cs geo y st g = Inr (g', st')" and "1 \<le> y"
    and "parked geo (streamIx st)"
  shows "streamIx st' = streamIx st \<and>
         (\<exists>rows. g' = g @ rows \<and> (\<forall>row \<in> set rows. \<forall>c \<in> set row. \<not> isStream c))"
proof -
  let ?P = "\<lambda>y1 st1 g1. 1 \<le> y1 \<and> streamIx st1 = streamIx st \<and>
         (\<exists>rows. g1 = g @ rows \<and> (\<forall>row \<in> set rows. \<forall>c \<in> set row. \<not> isStream c))"
  have "\<exists>y'\<ge>y. ?P y' st' g' \<and> (y' < Height geo \<longrightarrow> cellIx st' = int (length cs) - 1)"
  proof (rule plantRows_rule [OF assms(1), where P = ?P])
    show "?P y st g"
      using assms(2) by simp
  next
    fix y1 st1 g1 row st2
    assume inv: "?P y1 st1 g1"
      and row: "plantRow R cs geo y1 0 st1 [] = Inr (row, st2)"
    from inv assms(3) have p: "parked geo (streamIx st1)" by simp
    from inv have y1: "1 \<le> y1" by simp
    from plantRow_parked [OF row y1 p] have
      r: "streamIx st2 = streamIx st1" "\<forall>c \<in> set row. \<not> isStream c" by simp_all
    from inv obtain rows where
      rows: "g1 = g @ rows" "\<forall>row \<in> set rows. \<forall>c \<in> set row. \<not> isStream c" by blast
    from rows r have "g1 @ [row] = g @ (rows @ [row]) \<and>
        (\<forall>row \<in> set (rows @ [row]). \<forall>c \<in> set row. \<not> isStream c)" by simp
    then have "\<exists>rows. g1 @ [row] = g @ rows \<and>
        (\<forall>row \<in> set rows. \<forall>c \<in> set row. \<not> isStream c)" by blast
    with inv r show "?P (y1 + 1) st2 (g1 @ [row])" by simp
  qed
  then show ?thesis by blast
qed

text \<open>
  Claim C10. When a row \<open>y \<ge> 1\<close> begins with the stream column at 0, at \<open>width-1\<close> or at
  \<open>width\<close>, the row gets no stream cell and leaves the column as it is; hence the
  same holds for every later row: the rows \<open>rows\<close> generated from row \<open>y\<close> on hold no
  stream cell, and the column still has its value when generation ends.
\<close>

theorem parked_stream_stays_dry:
  assumes "1 \<le> y" and "streamIx st = 0 \<or> streamIx st = Width geo - 1 \<or> streamIx st = Width geo"
  shows "(plantRow R cs geo y 0 st [] = Inr (row, st1) \<longrightarrow>
            streamIx st1 = streamIx st \<and> (\<forall>c \<in> set row. \<not> isStream c)) \<and>
         (plantRows R cs geo y st g = Inr (g', st') \<longrightarrow>
            streamIx st' = streamIx st \<and>
            (\<exists>rows. g' = g @ rows \<and> (\<forall>row \<in> set rows. \<forall>c \<in> set row. \<not> isStream c)))"
proof -
  from assms(2) have p: "parked geo (streamIx st)" by (simp add: parked_def)
  have 1: "streamIx st1 = streamIx st \<and> (\<forall>c \<in> set row. \<not> isStream c)"
    if "plantRow R cs geo y 0 st [] = Inr (row, st1)"
    using plantRow_parked [OF that assms(1) p] by simp
  have 2: "streamIx st' = streamIx st \<and>
            (\<exists>rows. g' = g @ rows \<and> (\<forall>row \<in> set rows. \<forall>c \<in> set row. \<not> isStream c))"
    if "plantRows R cs geo y st g = Inr (g', st')"
    by (rule plantRows_parked [OF that assms(1) p])
  from 1 2 show ?thesis by blast
qed

text \<open>With seed 2 the stream of row 0 is at column 0 and stays parked there: rows 1 to 3
  are generated without a stream cell.\<close>

theorem parked_stream_stays_dry_witness:
  "(1::int) \<le> 1 \<and> streamIx parkedAtZero = 0 \<and>
   plantRow lcg threeCommits geo55 1 0 parkedAtZero [] =
     Inr ([treeCell, grassCell, grassCell, grassCell, treeCell], parkedAtZero\<lparr>rnd := 52925\<rparr>) \<and>
   streamIx (parkedAtZero\<lparr>rnd := 52925\<rparr>) = streamIx parkedAtZero \<and>
   filter isStream [treeCell, grassCell, grassCell, grassCell, treeCell] = [] \<and>
   plantRows lcg threeCommits geo55 1 parkedAtZero
       [[streamCell 0, breezeCell, signCell geo55, breezeCell, breezeCell]] =
     Inr ([streamCell 0, breezeCell, signCell geo55, breezeCell, breezeCell] #
          [[treeCell, grassCell, grassCell, grassCell, treeCell],
           [treeCell, grassCell, grassCell, grassCell, treeCell],
           [treeCell, flowerCell (planted ''a1b2c3d4''), flowerCell (planted ''b2c3d4e5''),
            grassCell, treeCell]],
          parkedAtZero\<lparr>cellIx := 2, rnd := 14852\<rparr>) \<and>
   streamIx (parkedAtZero\<lparr>cellIx := 2, rnd := 14852\<rparr>) = streamIx parkedAtZero"
proof -
  let ?row = "[treeCell, grassCell, grassCell, grassCell, treeCell]"
  let ?g = "[[streamCell 0, breezeCell, signCell geo55, breezeCell, breezeCell]]"
  let ?g' = "[streamCell 0, breezeCell, signCell geo55, breezeCell, breezeCell] #
          [[treeCell, grassCell, grassCell, grassCell, treeCell],
           [treeCell, grassCell, grassCell, grassCell, treeCell],
           [treeCell, flowerCell (planted ''a1b2c3d4''), flowerCell (planted ''b2c3d4e5''),
            grassCell, treeCell]]"
  have y: "(1::int) \<le> 1" by simp
  have ix: "streamIx parkedAtZero = 0"
    by (simp add: parkedAtZero_def)
  then have p: "streamIx parkedAtZero = 0 \<or> streamIx parkedAtZero = Width geo55 - 1 \<or>
      streamIx parkedAtZero = Width geo55" by simp
  have r: "plantRow lcg threeCommits geo55 1 0 parkedAtZero [] =
      Inr (?row, parkedAtZero\<lparr>rnd := 52925\<rparr>)"
    by (simp add: plant_eval geo55_def threeCommits_def planted_def parkedAtZero_def)
  have rs: "plantRows lcg threeCommits geo55 1 parkedAtZero ?g =
      Inr (?g', parkedAtZero\<lparr>cellIx := 2, rnd := 14852\<rparr>)"
    by (simp add: plant_eval geo55_def threeCommits_def planted_def parkedAtZero_def)
  note T = parked_stream_stays_dry [OF y p, where R = lcg and cs = threeCommits]
  from T r have 1: "streamIx (parkedAtZero\<lparr>rnd := 52925\<rparr>) = streamIx parkedAtZero \<and>
      (\<forall>c \<in> set ?row. \<not> isStream c)"
    by blast
  then have 2: "filter isStream ?row = []"
    by (simp only: filter_empty_conv) blast
  from T rs have 3: "streamIx (parkedAtZero\<lparr>cellIx := 2, rnd := 14852\<rparr>) = streamIx parkedAtZero"
    by blast
  from y ix r 1 2 rs 3 show ?thesis by blast
qed

section \<open>Flowers and commits\<close>

lemma isFlower_simps:
  "\<not> isFlower treeCell" "\<not> isFlower breezeCell" "\<not> isFlower (signCell geo)"
  "\<not> isFlower grassCell" "\<not> isFlower (streamCell t)" "isFlower (flowerCell commit)"
  by (simp_all add: isFlower_def streamCell_def breezeCell_def signCell_def grassCell_def
      flowerCell_def treeCell_def)

lemma plantCell_flowers:
  assumes "plantCell R cs geo y x st = Inr (c, st1)" and "cursorIn cs st"
  shows "cursorIn cs st1 \<and> flowersTo cs st1 = flowersTo cs st @ filter isFlower [c]"
proof -
  have grow: "map flowerCell (take (nat (k + 1)) cs) = map flowerCell (take (nat k) cs) @ [flowerCell (cs ! nat k)]"
    if "0 \<le> k" "k < int (length cs)" for k
  proof -
    from that have "nat (k + 1) = Suc (nat k)" "nat k < length cs" by simp_all
    then show ?thesis by (simp add: take_Suc_conv_app_nth)
  qed
  from assms show ?thesis
    by (auto simp: plantCell_def cursorIn_def flowersTo_def Let_def isFlower_simps grow
        split: if_splits prod.splits)
qed

lemma plantRow_flowers:
  assumes "plantRow R cs geo y 0 st [] = Inr (row, st')" and "cursorIn cs st"
  shows "cursorIn cs st' \<and> flowersTo cs st' = flowersTo cs st @ filter isFlower row"
  by (rule plantRow_rule [OF assms(1),
        where P = "\<lambda>x st1 row. cursorIn cs st1 \<and> flowersTo cs st1 = flowersTo cs st @ filter isFlower row"])
     (use assms(2) in \<open>auto dest: plantCell_flowers\<close>)

lemma length_flowersTo:
  "cursorIn cs st \<Longrightarrow> int (length (flowersTo cs st)) = cellIx st"
  by (auto simp: cursorIn_def flowersTo_def)

lemma plantRows_flowers:
  assumes "plantRows R cs geo 0 st [] = Inr (g, st')" and "cellIx st = 0"
  shows "cursorIn cs st' \<and> filter isFlower (concat g) = flowersTo cs st' \<and> started cs g \<and>
         int (length g) \<le> max 0 (Height geo) \<and>
         (int (length g) < Height geo \<longrightarrow> cellIx st' = int (length cs) - 1)"
proof -
  let ?P = "\<lambda>y st1 g1. int (length g1) = y \<and> y \<le> max 0 (Height geo) \<and> cursorIn cs st1 \<and>
      filter isFlower (concat g1) = flowersTo cs st1 \<and> started cs g1"
  have "\<exists>y'\<ge>0. ?P y' st' g \<and> (y' < Height geo \<longrightarrow> cellIx st' = int (length cs) - 1)"
  proof (rule plantRows_rule [OF assms(1), where P = ?P])
    show "?P 0 st []"
      using assms(2) by (simp add: cursorIn_def flowersTo_def started_def)
  next
    fix y st1 g1 row st2
    assume lt: "y < Height geo" and ns: "cellIx st1 \<noteq> int (length cs) - 1"
      and inv: "?P y st1 g1" and row: "plantRow R cs geo y 0 st1 [] = Inr (row, st2)"
    from inv have c1: "cursorIn cs st1" by simp
    note F = plantRow_flowers [OF row c1]
    from inv F have fl: "filter isFlower (concat (g1 @ [row])) = flowersTo cs st2" by simp
    have "started cs (g1 @ [row])"
      unfolding started_def
    proof (intro allI impI)
      fix i assume "i < length (g1 @ [row])"
      then consider "i < length g1" | "i = length g1" by fastforce
      then show "int (length (filter isFlower (concat (take i (g1 @ [row]))))) \<noteq> int (length cs) - 1"
      proof cases
        case 1
        with inv show ?thesis by (simp add: started_def)
      next
        case 2
        with inv ns show ?thesis by (simp add: length_flowersTo [OF c1])
      qed
    qed
    with inv F fl lt show "?P (y + 1) st2 (g1 @ [row])" by simp
  qed
  then show ?thesis by auto
qed

text \<open>
  Claim C4. The flower cells of a generated garden, read row by row, are the flower
  cells of the first \<open>k\<close> commits in the order of the commit list, for some \<open>k\<close> of at
  most the number of commits minus 1: commits are taken in input order, each at most
  once, and each flower cell is the cell of a commit of its own. A row is begun only
  while the number of flower cells placed differs from the number of commits minus 1,
  and a garden with fewer rows than the height has exactly that many flower cells.
  Such gardens exist: the one of seed 0 has three of five rows.
\<close>

theorem flowers_in_commit_order:
  "(plantGarden R s cs geo = Inr g \<longrightarrow>
      (\<exists>k. filter isFlower (concat g) = map flowerCell (take k cs) \<and> k \<le> length cs - 1) \<and>
      length (filter isFlower (concat g)) \<le> length cs \<and>
      int (length g) \<le> max 0 (Height geo) \<and>
      (\<forall>y < length g. int (length (filter isFlower (concat (take y g)))) \<noteq> int (length cs) - 1) \<and>
      (int (length g) < Height geo \<longrightarrow>
         int (length (filter isFlower (concat g))) = int (length cs) - 1)) \<and>
   (\<exists>cs geo g. plantGarden lcg 0 cs geo = Inr g \<and> int (length g) < Height geo)"
proof (intro conjI impI)
  assume run: "plantGarden R s cs geo = Inr g"
  then obtain st0 st' where st0: "startPlanting R geo s = Inr st0"
    and rows: "plantRows R cs geo 0 st0 [] = Inr (g, st')"
    by (auto simp: plantGarden_def split: sum.splits)
  note F = plantRows_flowers [OF rows startPlanting_cellIx [OF st0]]
  from F have c: "cursorIn cs st'" and fl: "filter isFlower (concat g) = flowersTo cs st'"
    by simp_all
  let ?k = "nat (cellIx st')"
  from c have k: "?k \<le> length cs - 1"
    by (auto simp: cursorIn_def)
  from fl have "filter isFlower (concat g) = map flowerCell (take ?k cs)"
    by (simp add: flowersTo_def)
  with k show "\<exists>k. filter isFlower (concat g) = map flowerCell (take k cs) \<and> k \<le> length cs - 1"
    by blast
  from fl show "length (filter isFlower (concat g)) \<le> length cs"
    by (simp add: flowersTo_def)
  from F show "int (length g) \<le> max 0 (Height geo)" by simp
  from F show "\<forall>y < length g. int (length (filter isFlower (concat (take y g)))) \<noteq> int (length cs) - 1"
    by (simp add: started_def)
  show "int (length (filter isFlower (concat g))) = int (length cs) - 1" if "int (length g) < Height geo"
    using F that by (simp add: length_flowersTo [OF c])
next
  have "plantGarden lcg 0 threeCommits geo55 = Inr garden0 \<and> int (length garden0) < Height geo55"
    by (simp add: garden0_planted) (simp add: garden0_def geo55_def)
  then show "\<exists>cs geo g. plantGarden lcg 0 cs geo = Inr g \<and> int (length g) < Height geo"
    by blast
qed

text \<open>The garden of seed 0: the flowers are those of the first two of three commits, and
  generation stopped after three of five rows.\<close>

theorem flowers_in_commit_order_witness:
  "plantGarden lcg 0 threeCommits geo55 = Inr garden0 \<and>
   filter isFlower (concat garden0) = map flowerCell (take 2 threeCommits) \<and>
   length (filter isFlower (concat garden0)) \<le> length threeCommits \<and>
   int (length garden0) < Height geo55 \<and>
   int (length (filter isFlower (concat garden0))) = int (length threeCommits) - 1"
proof -
  note T = flowers_in_commit_order [of lcg 0 threeCommits geo55 garden0]
  have short: "int (length garden0) < Height geo55"
    by (simp add: garden0_def geo55_def)
  have fl: "filter isFlower (concat garden0) = map flowerCell (take 2 threeCommits)"
    by (simp add: garden0_def threeCommits_def isFlower_simps)
  from T garden0_planted have 1: "length (filter isFlower (concat garden0)) \<le> length threeCommits"
    by blast
  from T garden0_planted short
  have 2: "int (length (filter isFlower (concat garden0))) = int (length threeCommits) - 1"
    by blast
  from garden0_planted fl 1 short 2 show ?thesis by blast
qed

section \<open>The stream\<close>

lemma startPlanting_stream:
  assumes "inRange R" and "startPlanting R geo s = Inr st"
  shows "2 \<le> Width geo \<and> 0 \<le> fst (Intn R s (Width geo - 1)) \<and> fst (Intn R s (Width geo - 1)) \<le> Width geo - 2 \<and>
         streamIx st = specStart (Width geo) (fst (Intn R s (Width geo - 1)))"
proof -
  from assms(2) have w: "2 \<le> Width geo"
    by (auto simp: startPlanting_def split: if_splits)
  then have q: "quot (Width geo) 2 = Width geo div 2"
    by (simp add: quot_def)
  from w assms(1) have "0 \<le> fst (Intn R s (Width geo - 1)) \<and> fst (Intn R s (Width geo - 1)) < Width geo - 1"
    by (simp add: inRange_def)
  with assms(2) w q show ?thesis
    by (auto simp: startPlanting_def specStart_def Let_def split: if_splits prod.splits)
qed

lemma plantCell_stream:
  assumes "\<not> treeClaims geo y x" and "x = streamIx st"
  shows "plantCell R cs geo y x st =
     Inr (streamCell (tint st),
          st\<lparr>streamIx := specWalk (Width geo) (streamIx st) (fst (Float64 R (rnd st))),
             tint := tint st + 15, rnd := snd (Float64 R (rnd st))\<rparr>)"
  using assms
  by (auto simp: plantCell_def treeClaims_def specWalk_def Let_def split: prod.splits)

lemma plantCell_no_stream:
  assumes "plantCell R cs geo y x st = Inr (c, st1)" and "treeClaims geo y x \<or> x \<noteq> streamIx st"
  shows "\<not> isStream c \<and> streamIx st1 = streamIx st \<and> tint st1 = tint st"
  using assms
  by (auto simp: plantCell_def treeClaims_def Let_def not_isStream split: if_splits prod.splits)

lemma specWalk_le: "0 \<le> ix \<Longrightarrow> ix \<le> w \<Longrightarrow> specWalk w ix d \<le> ix"
  by (simp add: specWalk_def)

lemma plantRow_stream:
  assumes run: "plantRow R cs geo y 0 st [] = Inr (row, st')"
    and k: "0 \<le> streamIx st" "streamIx st < Width geo" and free: "\<not> treeClaims geo y (streamIx st)"
  shows "row ! nat (streamIx st) = streamCell (tint st) \<and>
         (\<forall>i < length row. isStream (row ! i) \<longleftrightarrow> i = nat (streamIx st)) \<and>
         (\<exists>s1. streamIx st' = specWalk (Width geo) (streamIx st) (fst (Float64 R s1)))"
proof -
  let ?k = "streamIx st"
  let ?after = "\<lambda>st1 row. row ! nat ?k = streamCell (tint st) \<and>
         (\<forall>i < length row. isStream (row ! i) \<longleftrightarrow> i = nat ?k) \<and>
         (\<exists>s1. streamIx st1 = specWalk (Width geo) ?k (fst (Float64 R s1)))"
  let ?P = "\<lambda>x st1 row. int (length row) = x \<and>
      (x \<le> ?k \<longrightarrow> streamIx st1 = ?k \<and> tint st1 = tint st \<and> (\<forall>c \<in> set row. \<not> isStream c)) \<and>
      (?k < x \<longrightarrow> ?after st1 row)"
  have "?P (max 0 (Width geo)) st' row"
  proof (rule plantRow_rule [OF run, where P = ?P])
    show "?P 0 st []" using k by simp
  next
    fix x st1 row c st2
    assume lt: "x < Width geo" and inv: "?P x st1 row"
      and cell: "plantCell R cs geo y x st1 = Inr (c, st2)"
    from inv have len: "int (length row) = x" by simp
    consider "x < ?k" | "x = ?k" | "?k < x" by linarith
    then show "?P (x + 1) st2 (row @ [c])"
    proof cases
      case 1
      with inv have "x \<noteq> streamIx st1" by simp
      from plantCell_no_stream [OF cell disjI2 [OF this]] 1 inv len
      show ?thesis by auto
    next
      case 2
      with inv have s1: "streamIx st1 = ?k" "tint st1 = tint st" "\<forall>c \<in> set row. \<not> isStream c"
        by simp_all
      from plantCell_stream [of geo y x st1 R cs] free 2 s1(1) cell
      have c: "c = streamCell (tint st1)"
        and st2: "st2 = st1\<lparr>streamIx := specWalk (Width geo) (streamIx st1) (fst (Float64 R (rnd st1))),
             tint := tint st1 + 15, rnd := snd (Float64 R (rnd st1))\<rparr>"
        by simp_all
      from len 2 k have n: "nat ?k = length row" by simp
      have a: "(row @ [c]) ! nat ?k = streamCell (tint st)"
        by (simp add: n c s1)
      have b: "\<forall>i < length (row @ [c]). isStream ((row @ [c]) ! i) \<longleftrightarrow> i = nat ?k"
        using s1(3) by (auto simp: n c nth_append isStream_streamCell less_Suc_eq)
      from st2 s1 have "streamIx st2 = specWalk (Width geo) ?k (fst (Float64 R (rnd st1)))"
        by simp
      then have "\<exists>s1. streamIx st2 = specWalk (Width geo) ?k (fst (Float64 R s1))" by blast
      with a b 2 len show ?thesis by simp
    next
      case 3
      with inv have aft: "?after st1 row" by simp
      then obtain s1 where "streamIx st1 = specWalk (Width geo) ?k (fst (Float64 R s1))" by blast
      with k have "streamIx st1 \<le> ?k" by (simp add: specWalk_le)
      with 3 have "x \<noteq> streamIx st1" by simp
      note N = plantCell_no_stream [OF cell disjI2 [OF this]]
      from 3 len k have n: "nat ?k < length row" by simp
      from aft N n have "?after st2 (row @ [c])"
        by (auto simp: nth_append)
      with 3 len show ?thesis by simp
    qed
  qed
  with k show ?thesis by simp
qed

lemma plantRow_no_stream:
  assumes run: "plantRow R cs geo y 0 st [] = Inr (row, st')"
    and k: "streamIx st < 0 \<or> Width geo \<le> streamIx st \<or> treeClaims geo y (streamIx st)"
  shows "(\<forall>c \<in> set row. \<not> isStream c) \<and> streamIx st' = streamIx st"
proof -
  let ?P = "\<lambda>(x::int) st1 row. 0 \<le> x \<and> streamIx st1 = streamIx st \<and> (\<forall>c \<in> set row. \<not> isStream c)"
  have "?P (max 0 (Width geo)) st' row"
  proof (rule plantRow_rule [OF run, where P = ?P])
    show "?P 0 st []" by simp
  next
    fix x st1 row c st2
    assume lt: "x < Width geo" and inv: "?P x st1 row"
      and cell: "plantCell R cs geo y x st1 = Inr (c, st2)"
    from inv lt k have "treeClaims geo y x \<or> x \<noteq> streamIx st1" by auto
    from plantCell_no_stream [OF cell this] inv show "?P (x + 1) st2 (row @ [c])" by simp
  qed
  then show ?thesis by simp
qed


lemma inRange_lcg: "inRange lcg"
proof -
  have "lcgNext s < 65537" for s
    by (simp add: lcgNext_def)
  then have "real (lcgNext s) < 65537" for s
    by (metis of_nat_less_iff of_nat_numeral)
  then show ?thesis
    by (simp add: inRange_def lcg_def)
qed

text \<open>
  Claim C7. For a random source whose draws lie in their documented ranges: the
  starting column is the draw of \<^verbatim>\<open>rand.Intn(width-1)\<close>, which lies in [0, width-2],
  shifted left by one if it equals width/2. A row that begins with the stream column
  inside the row, on a cell the tree border does not claim, gets a stream cell in that
  column and nowhere else; a row whose stream column is claimed by the border or lies
  outside the row gets none and leaves the column alone. Placing a stream cell
  replaces the column by the column minus 1, plus 1 again when the draw of
  \<^verbatim>\<open>rand.Float64()\<close> is below one half, clamped to [0, width]. How the draws are
  distributed (uniformly, by the library's contract) is a matter of the random source,
  which is a parameter here.
\<close>

theorem stream_layout:
  assumes "inRange R"
  shows
   "(startPlanting R geo s = Inr st0 \<longrightarrow>
       0 \<le> fst (Intn R s (Width geo - 1)) \<and> fst (Intn R s (Width geo - 1)) \<le> Width geo - 2 \<and>
       streamIx st0 = specStart (Width geo) (fst (Intn R s (Width geo - 1)))) \<and>
    (plantRow R cs geo y 0 st [] = Inr (row, st') \<and>
     0 \<le> streamIx st \<and> streamIx st < Width geo \<and> \<not> treeClaims geo y (streamIx st) \<longrightarrow>
       row ! nat (streamIx st) = streamCell (tint st) \<and>
       (\<forall>i < length row. isStream (row ! i) \<longleftrightarrow> i = nat (streamIx st)) \<and>
       (\<exists>s1. streamIx st' = specWalk (Width geo) (streamIx st) (fst (Float64 R s1)))) \<and>
    (plantRow R cs geo y 0 st [] = Inr (row, st') \<and>
     (streamIx st < 0 \<or> Width geo \<le> streamIx st \<or> treeClaims geo y (streamIx st)) \<longrightarrow>
       (\<forall>c \<in> set row. \<not> isStream c) \<and> streamIx st' = streamIx st) \<and>
    (\<not> treeClaims geo y x \<and> x = streamIx st \<longrightarrow>
       plantCell R cs geo y x st =
         Inr (streamCell (tint st),
              st\<lparr>streamIx := specWalk (Width geo) (streamIx st) (fst (Float64 R (rnd st))),
                 tint := tint st + 15, rnd := snd (Float64 R (rnd st))\<rparr>))"
proof -
  have 1: "0 \<le> fst (Intn R s (Width geo - 1)) \<and> fst (Intn R s (Width geo - 1)) \<le> Width geo - 2 \<and>
       streamIx st0 = specStart (Width geo) (fst (Intn R s (Width geo - 1)))"
    if "startPlanting R geo s = Inr st0"
    using startPlanting_stream [OF assms that] by simp
  have 2: "row ! nat (streamIx st) = streamCell (tint st) \<and>
       (\<forall>i < length row. isStream (row ! i) \<longleftrightarrow> i = nat (streamIx st)) \<and>
       (\<exists>s1. streamIx st' = specWalk (Width geo) (streamIx st) (fst (Float64 R s1)))"
    if "plantRow R cs geo y 0 st [] = Inr (row, st') \<and>
     0 \<le> streamIx st \<and> streamIx st < Width geo \<and> \<not> treeClaims geo y (streamIx st)"
    using plantRow_stream [of R cs geo y st row st'] that by blast
  have 3: "(\<forall>c \<in> set row. \<not> isStream c) \<and> streamIx st' = streamIx st"
    if "plantRow R cs geo y 0 st [] = Inr (row, st') \<and>
     (streamIx st < 0 \<or> Width geo \<le> streamIx st \<or> treeClaims geo y (streamIx st))"
    using plantRow_no_stream [of R cs geo y st row st'] that by blast
  have 4: "plantCell R cs geo y x st =
         Inr (streamCell (tint st),
              st\<lparr>streamIx := specWalk (Width geo) (streamIx st) (fst (Float64 R (rnd st))),
                 tint := tint st + 15, rnd := snd (Float64 R (rnd st))\<rparr>)"
    if "\<not> treeClaims geo y x \<and> x = streamIx st"
    using plantCell_stream [of geo y x st R cs] that by blast
  from 1 2 3 4 show ?thesis by blast
qed

text \<open>Seed 0 on the 5 x 5 grid: the draw 2 is shifted to column 1, row 0 gets its stream
  cell there and the column is walked back to 1; row 1 of the run of seed 2 begins with
  the column on the border and gets no stream cell.\<close>

theorem stream_layout_witness:
  "inRange lcg \<and>
   startPlanting lcg geo55 0 = Inr seed0Start \<and>
   fst (Intn lcg 0 (Width geo55 - 1)) = 2 \<and> Width geo55 div 2 = 2 \<and> streamIx seed0Start = 1 \<and>
   plantRow lcg threeCommits geo55 0 0 seed0Start [] =
     Inr (garden0 ! 0, seed0Start\<lparr>tint := 15, rnd := 5624\<rparr>) \<and>
   \<not> treeClaims geo55 0 1 \<and>
   garden0 ! 0 ! 1 = streamCell 0 \<and>
   fst (Float64 lcg 74) < 1 / 2 \<and> specWalk 5 1 (fst (Float64 lcg 74)) = 1 \<and>
   plantCell lcg threeCommits geo55 0 1 seed0Start =
     Inr (streamCell 0, seed0Start\<lparr>tint := 15, rnd := 5624\<rparr>) \<and>
   treeClaims geo55 1 (streamIx parkedAtZero) \<and>
   plantRow lcg threeCommits geo55 1 0 parkedAtZero [] =
     Inr ([treeCell, grassCell, grassCell, grassCell, treeCell], parkedAtZero\<lparr>rnd := 52925\<rparr>) \<and>
   filter isStream [treeCell, grassCell, grassCell, grassCell, treeCell] = []"
proof -
  note T = stream_layout [OF inRange_lcg, where geo = geo55 and s = 0 and ?st0.0 = seed0Start
      and cs = threeCommits and y = 0 and st = seed0Start and row = "garden0 ! 0"
      and st' = "seed0Start\<lparr>tint := 15, rnd := 5624\<rparr>" and x = 1]
  note U = stream_layout [OF inRange_lcg, where geo = geo55 and cs = threeCommits and y = 1
      and st = parkedAtZero and row = "[treeCell, grassCell, grassCell, grassCell, treeCell]"
      and st' = "parkedAtZero\<lparr>rnd := 52925\<rparr>"]
  have s: "startPlanting lcg geo55 0 = Inr seed0Start"
    by (simp add: plant_eval geo55_def seed0Start_def)
  have d: "fst (Intn lcg 0 (Width geo55 - 1)) = 2" "Width geo55 div 2 = 2"
    by (simp_all add: lcg_def lcgNext_def geo55_def)
  have r: "plantRow lcg threeCommits geo55 0 0 seed0Start [] =
     Inr (garden0 ! 0, seed0Start\<lparr>tint := 15, rnd := 5624\<rparr>)"
    by (simp add: plant_eval geo55_def threeCommits_def planted_def seed0Start_def garden0_def)
  have k: "streamIx seed0Start = 1" "tint seed0Start = 0"
    by (simp_all add: seed0Start_def)
  have f: "\<not> treeClaims geo55 0 1"
    by (simp add: treeClaims_def geo55_def)
  have w: "fst (Float64 lcg 74) < 1 / 2" "specWalk 5 1 (fst (Float64 lcg 74)) = 1"
    by (simp_all add: lcg_def lcgNext_def specWalk_def)
  from T s have 1: "streamIx seed0Start = specStart (Width geo55) (fst (Intn lcg 0 (Width geo55 - 1)))"
    by blast
  from T r k f have 2: "garden0 ! 0 ! 1 = streamCell 0"
    by (simp add: geo55_def)
  from T f k have 3: "plantCell lcg threeCommits geo55 0 1 seed0Start =
     Inr (streamCell (tint seed0Start),
          seed0Start\<lparr>streamIx := specWalk (Width geo55) (streamIx seed0Start)
                          (fst (Float64 lcg (rnd seed0Start))),
                 tint := tint seed0Start + 15, rnd := snd (Float64 lcg (rnd seed0Start))\<rparr>)"
    by simp
  have 4: "plantCell lcg threeCommits geo55 0 1 seed0Start =
     Inr (streamCell 0, seed0Start\<lparr>tint := 15, rnd := 5624\<rparr>)"
    unfolding 3 by (simp add: seed0Start_def lcg_def lcgNext_def geo55_def specWalk_def)
  have c: "treeClaims geo55 1 (streamIx parkedAtZero)"
    by (simp add: treeClaims_def parkedAtZero_def)
  have p: "plantRow lcg threeCommits geo55 1 0 parkedAtZero [] =
      Inr ([treeCell, grassCell, grassCell, grassCell, treeCell], parkedAtZero\<lparr>rnd := 52925\<rparr>)"
    by (simp add: plant_eval geo55_def threeCommits_def planted_def parkedAtZero_def)
  from U p c have "\<forall>c \<in> set [treeCell, grassCell, grassCell, grassCell, treeCell]. \<not> isStream c"
    by blast
  then have 5: "filter isStream [treeCell, grassCell, grassCell, grassCell, treeCell] = []"
    by (simp only: filter_empty_conv)
  from inRange_lcg s d k r f 2 w 4 c p 5 show ?thesis by blast
qed

section \<open>Seed derivation: theorems\<close>

lemma foldl_append_concat:
  "foldl (\<lambda>lol r. lol @ f r) acc rs = acc @ concat (map f rs)"
  by (induction rs arbitrary: acc) simp_all

lemma lol_codePointDigits:
  "foldl (\<lambda>lol r. lol @ fmtInt (int r)) [] seed = codePointDigits seed"
  by (simp add: foldl_append_concat fmtInt_def codePointDigits_def)

lemma of_char_digitChar: "d < 10 \<Longrightarrow> (of_char (digitChar d) :: nat) = 48 + d"
  by (simp add: digitChar_def)

lemma isDigit_digitChar: "d < 10 \<Longrightarrow> isDigit (digitChar d)"
  by (simp add: isDigit_def of_char_digitChar)

lemma digits_decimal: "list_all isDigit (decimal n)"
proof (induction n rule: decimal.induct)
  case (1 n)
  show ?case
  proof (cases "n < 10")
    case True
    then show ?thesis
      by (subst decimal.simps) (simp add: isDigit_digitChar)
  next
    case False
    with "1.IH" show ?thesis
      by (subst decimal.simps) (simp add: isDigit_digitChar)
  qed
qed

lemma digits_codePointDigits: "list_all isDigit (codePointDigits seed)"
  by (induction seed) (simp_all add: codePointDigits_def digits_decimal)

lemma digitVal_range: "isDigit c \<Longrightarrow> 0 \<le> digitVal c \<and> digitVal c \<le> 9"
  by (auto simp: isDigit_def digitVal_def)

lemma decimalValue_range:
  "list_all isDigit ds \<Longrightarrow> 0 \<le> decimalValue ds \<and> decimalValue ds < 10 ^ length ds"
proof (induction ds)
  case Nil
  then show ?case by simp
next
  case (Cons c cs)
  then have c: "0 \<le> digitVal c" "digitVal c \<le> 9" and
    ih: "0 \<le> decimalValue cs" "decimalValue cs < 10 ^ length cs"
    by (simp_all add: digitVal_range)
  from c(2) have m: "digitVal c * 10 ^ length cs \<le> 9 * 10 ^ length cs"
    by (simp add: mult_right_mono)
  from c(1) have n: "0 \<le> digitVal c * 10 ^ length cs"
    by simp
  have p: "(10::int) ^ length (c # cs) = 9 * 10 ^ length cs + 10 ^ length cs"
    by simp
  have v: "decimalValue (c # cs) = digitVal c * 10 ^ length cs + decimalValue cs"
    by simp
  from m n ih show ?case
    unfolding p v by linarith
qed

lemma horner_decimalValue:
  "foldl (\<lambda>acc c. 10 * acc + digitVal c) a ds = a * 10 ^ length ds + decimalValue ds"
  by (induction ds arbitrary: a) (simp_all add: algebra_simps)

lemma isDigit_no_sign: "isDigit c \<Longrightarrow> c \<noteq> CHR ''-'' \<and> c \<noteq> CHR ''+''"
  by (auto simp: isDigit_def)

lemma ParseInt_digits:
  assumes "list_all isDigit ds" and "ds \<noteq> []" and "length ds \<le> 10"
  shows "ParseInt ds = Some (decimalValue ds)"
proof -
  from assms(1,2) have "isDigit (hd ds)"
    by (cases ds) simp_all
  then have sign: "hd ds \<noteq> CHR ''-''" "hd ds \<noteq> CHR ''+''"
    by (simp_all add: isDigit_no_sign)
  have "decimalValue ds < 10 ^ length ds"
    using decimalValue_range [OF assms(1)] by simp
  also have "(10::int) ^ length ds \<le> 10 ^ 10"
    by (rule power_increasing [OF assms(3)]) simp
  also have "(10::int) ^ 10 < 2 ^ 63" by simp
  finally have "decimalValue ds < 2 ^ 63" .
  with sign assms(1,2) show ?thesis
    by (simp add: ParseInt_def horner_decimalValue)
qed

text \<open>
  Claim C8. \<open>computeSeed\<close> succeeds exactly when the digit string of the name, which
  consists of decimal digits only, has at least 10 of them; it then returns the base-10
  value of the first 10 digits (a function of the name alone), and it panics on the
  slice \<^verbatim>\<open>lol[0:10]\<close> when there are fewer. \<^verbatim>\<open>ParseInt\<close> never fails on the ten digits.
\<close>

theorem seed_of_first_ten_digits:
  "computeSeed seed =
     (if 10 \<le> length (codePointDigits seed)
      then Inr (decimalValue (take 10 (codePointDigits seed)))
      else Inl SliceOutOfRange) \<and>
   list_all isDigit (codePointDigits seed) \<and>
   ((\<exists>result. computeSeed seed = Inr result) \<longleftrightarrow> 10 \<le> length (codePointDigits seed))"
proof -
  let ?lol = "codePointDigits seed"
  have d: "list_all isDigit ?lol"
    by (rule digits_codePointDigits)
  have eq: "computeSeed seed =
     (if 10 \<le> length ?lol then Inr (decimalValue (take 10 ?lol)) else Inl SliceOutOfRange)"
  proof (cases "10 \<le> length ?lol")
    case True
    from d have "list_all isDigit (take 10 ?lol)"
      by (auto simp: list_all_iff dest: in_set_takeD)
    moreover from True have "take 10 ?lol \<noteq> []" by auto
    ultimately have "ParseInt (take 10 ?lol) = Some (decimalValue (take 10 ?lol))"
      by (rule ParseInt_digits) simp
    with True show ?thesis
      by (simp add: computeSeed_def lol_codePointDigits)
  next
    case False
    then show ?thesis
      by (simp add: computeSeed_def lol_codePointDigits)
  qed
  from eq d show ?thesis by auto
qed

text \<open>The name "cli/cli" has 18 digits and the seed 9910810547; the name "a/b" has 6
  digits and panics.\<close>

theorem seed_of_first_ten_digits_witness:
  "codePointDigits (runes ''cli/cli'') = ''991081054799108105'' \<and>
   computeSeed (runes ''cli/cli'') = Inr 9910810547 \<and>
   codePointDigits (runes ''a/b'') = ''974798'' \<and>
   computeSeed (runes ''a/b'') = Inl SliceOutOfRange"
proof -
  have dec: "decimal 99 = ''99''" "decimal 108 = ''108''" "decimal 105 = ''105''"
    "decimal 47 = ''47''" "decimal 97 = ''97''" "decimal 98 = ''98''"
    by (simp_all add: decimal.simps digitChar_simps)
  have 1: "codePointDigits (runes ''cli/cli'') = ''991081054799108105''"
    by (simp add: codePointDigits_def runes_def dec)
  have 2: "codePointDigits (runes ''a/b'') = ''974798''"
    by (simp add: codePointDigits_def runes_def dec)
  have v: "decimalValue ''9910810547'' = 9910810547"
    by (simp add: digitVal_def)
  from seed_of_first_ten_digits [of "runes ''cli/cli''"] 1 v
  have 3: "computeSeed (runes ''cli/cli'') = Inr 9910810547" by simp
  from seed_of_first_ten_digits [of "runes ''a/b''"] 2
  have 4: "computeSeed (runes ''a/b'') = Inl SliceOutOfRange" by simp
  from 1 2 3 4 show ?thesis by blast
qed

section \<open>The shoe moisture\<close>

lemma move_Shoe: "ShoeMoistureContent (snd (move p d)) = ShoeMoistureContent p"
  by (simp add: move_def)

lemma move_blocked_same: "\<not> fst (move p d) \<Longrightarrow> snd (move p d) = p"
  by (simp add: move_def split: if_splits)

lemma wetten_damp: "damp p \<Longrightarrow> damp (wetten cell p)"
  by (simp add: damp_def wetten_def)

lemma drawRow_damp: "damp p \<Longrightarrow> damp (drawRow p y x row)"
  by (induction row arbitrary: p x) (simp_all add: wetten_damp)

lemma drawRows_damp: "damp p \<Longrightarrow> damp (drawRows p y g)"
  by (induction g arbitrary: p y) (simp_all add: drawRow_damp)

lemma loopBody_still:
  assumes "direction (classify b) = None"
  shows "loopBody garden p b = (Continue, p)"
  using assms by (cases "classify b") (simp_all add: loopBody_def direction_def)

lemma loopBody_left: "classify b = TakeLeft \<Longrightarrow> loopBody garden p b = walk garden p DirLeft"
  by (simp add: loopBody_def walk_def Let_def move_blocked_same)

lemma loopBody_right: "classify b = TakeRight \<Longrightarrow> loopBody garden p b = walk garden p DirRight"
  by (simp add: loopBody_def walk_def Let_def move_blocked_same)

lemma loopBody_up: "classify b = TakeUp \<Longrightarrow> loopBody garden p b = walk garden p DirUp"
  by (simp add: loopBody_def walk_def Let_def move_blocked_same)

lemma loopBody_down: "classify b = TakeDown \<Longrightarrow> loopBody garden p b = walk garden p DirDown"
  by (simp add: loopBody_def walk_def Let_def move_blocked_same)

lemma loopBody_moving:
  assumes "direction (classify b) = Some d"
  shows "loopBody garden p b = walk garden p d"
  using assms
  by (cases "classify b")
     (auto simp: direction_def loopBody_left loopBody_right loopBody_up loopBody_down)


lemma direction_four: "direction br = Some d \<Longrightarrow> d \<in> {DirUp, DirDown, DirLeft, DirRight}"
  by (cases br) (simp_all add: direction_def)

lemma move_changes:
  assumes "d \<in> {DirUp, DirDown, DirLeft, DirRight}" and "fst (move p d)"
  shows "(X (snd (move p d)), Y (snd (move p d))) \<noteq> (X p, Y p)"
  using assms by (auto simp: move_def Dir_defs split: if_splits)

lemma wetten_position: "X (wetten cell p) = X p" "Y (wetten cell p) = Y p"
  by (simp_all add: wetten_def)

lemma wetten_Shoe:
  "ShoeMoistureContent (wetten cell p) =
     (if Contains (StatusLine cell) ''stream'' then 5
      else if 0 < ShoeMoistureContent p then ShoeMoistureContent p - 1
      else ShoeMoistureContent p)"
  by (simp add: wetten_def)

lemma walk_cases:
  "walk garden p d = (Continue, p) \<and> \<not> fst (move p d) \<or>
   fst (move p d) \<and>
     ((\<exists>e. walk garden p d = (Panic e, snd (move p d))) \<or>
      (\<exists>cell. cellAt garden (Y (snd (move p d))) (X (snd (move p d))) = Inr cell \<and>
         walk garden p d = (Continue, wetten cell (snd (move p d)))))"
  by (simp add: walk_def split: sum.splits)

lemma move_damp: "damp p \<Longrightarrow> damp (snd (move p d))"
  by (simp add: damp_def move_Shoe)

lemma walk_damp: "damp p \<Longrightarrow> damp (snd (walk garden p d))"
  using walk_cases [of garden p d]
  by (auto simp: wetten_damp move_damp)

lemma walk_not_Break: "fst (walk garden p d) \<noteq> Break"
  using walk_cases [of garden p d] by auto

lemma loopBody_damp: "damp p \<Longrightarrow> damp (snd (loopBody garden p b))"
  by (cases "direction (classify b)")
     (simp_all add: loopBody_still loopBody_moving walk_damp)

lemma loopBody_not_Break: "fst (loopBody garden p b) \<noteq> Break"
  by (cases "direction (classify b)")
     (simp_all add: loopBody_still loopBody_moving walk_not_Break)

lemma gameLoop_damp: "damp p \<Longrightarrow> damp (snd (gameLoop garden p input))"
proof (induction garden p input rule: gameLoop.induct)
  case (3 garden player b rest)
  from "3.prems" have d: "damp (snd (loopBody garden player b))"
    by (rule loopBody_damp)
  obtain c p' where l: "loopBody garden player b = (c, p')"
    by (cases "loopBody garden player b")
  with d have d': "damp p'" by simp
  show ?case
  proof (cases c)
    case Continue
    with l "3.IH" d' show ?thesis by auto
  next
    case Break
    with l d' show ?thesis by simp
  next
    case (Panic e)
    with l d' show ?thesis by simp
  qed
qed simp_all

lemma loopBody_step:
  assumes "loopBody garden p b = (Continue, p')"
  shows "((X p', Y p') = (X p, Y p) \<and> p' = p) \<or>
         ((X p', Y p') \<noteq> (X p, Y p) \<and>
          (\<exists>cell. cellAt garden (Y p') (X p') = Inr cell \<and>
             ShoeMoistureContent p' = ShoeMoistureContent (wetten cell p)))"
proof (cases "direction (classify b)")
  case None
  with assms show ?thesis by (simp add: loopBody_still)
next
  case (Some d)
  with assms have w: "walk garden p d = (Continue, p')"
    by (simp add: loopBody_moving)
  from Some have four: "d \<in> {DirUp, DirDown, DirLeft, DirRight}"
    by (rule direction_four)
  from walk_cases [of garden p d] w
  consider "p' = p" | cell where "fst (move p d)"
      "cellAt garden (Y (snd (move p d))) (X (snd (move p d))) = Inr cell"
      "p' = wetten cell (snd (move p d))"
    by auto
  then show ?thesis
  proof cases
    case 1
    then show ?thesis by simp
  next
    case 2
    from move_changes [OF four 2(1)] 2(3)
    have ne: "(X p', Y p') \<noteq> (X p, Y p)"
      by (simp add: wetten_position)
    from 2 have "cellAt garden (Y p') (X p') = Inr cell"
      by (simp add: wetten_position)
    moreover from 2(3) have "ShoeMoistureContent p' = ShoeMoistureContent (wetten cell p)"
      by (simp add: wetten_Shoe move_Shoe)
    ultimately show ?thesis using ne by blast
  qed
qed

text \<open>
  Claim C6. The shoe moisture starts at 0 and lies in [0,5] however the session ends
  and after any input (the first draw included). After a pass of the loop body in
  which the position changed, the moisture is 5 if the status text of the cell now
  occupied contains "stream", whatever it was before, and otherwise one less than
  before if that was positive and unchanged if it was not; a pass in which the
  position did not change leaves the moisture alone. So a step off the stream lowers
  the moisture by at most 1 and never below 0, and every pass keeps it in [0,5].
\<close>

theorem moisture_bounded:
  "0 \<le> ShoeMoistureContent (snd (stroll glyph geo garden input)) \<and>
   ShoeMoistureContent (snd (stroll glyph geo garden input)) \<le> 5 \<and>
   (loopBody garden p b = (Continue, p') \<and> (X p', Y p') \<noteq> (X p, Y p) \<longrightarrow>
      (\<exists>cell. cellAt garden (Y p') (X p') = Inr cell \<and>
         ShoeMoistureContent p' =
           (if Contains (StatusLine cell) ''stream'' then 5
            else if 0 < ShoeMoistureContent p then ShoeMoistureContent p - 1
            else ShoeMoistureContent p))) \<and>
   (loopBody garden p b = (Continue, p') \<and> (X p', Y p') = (X p, Y p) \<longrightarrow>
      ShoeMoistureContent p' = ShoeMoistureContent p) \<and>
   (0 \<le> ShoeMoistureContent p \<and> ShoeMoistureContent p \<le> 5 \<longrightarrow>
      0 \<le> ShoeMoistureContent (snd (loopBody garden p b)) \<and>
      ShoeMoistureContent (snd (loopBody garden p b)) \<le> 5)"
proof -
  have "damp (newPlayer glyph geo)"
    by (simp add: damp_def newPlayer_def)
  then have "damp (snd (stroll glyph geo garden input))"
    by (simp add: stroll_def drawGarden_def gameLoop_damp drawRows_damp)
  then have 1: "0 \<le> ShoeMoistureContent (snd (stroll glyph geo garden input)) \<and>
      ShoeMoistureContent (snd (stroll glyph geo garden input)) \<le> 5"
    by (simp add: damp_def)
  have 2: "\<exists>cell. cellAt garden (Y p') (X p') = Inr cell \<and>
         ShoeMoistureContent p' =
           (if Contains (StatusLine cell) ''stream'' then 5
            else if 0 < ShoeMoistureContent p then ShoeMoistureContent p - 1
            else ShoeMoistureContent p)"
    if "loopBody garden p b = (Continue, p') \<and> (X p', Y p') \<noteq> (X p, Y p)"
    using loopBody_step [of garden p b p'] that by (auto simp: wetten_Shoe)
  have 3: "ShoeMoistureContent p' = ShoeMoistureContent p"
    if "loopBody garden p b = (Continue, p') \<and> (X p', Y p') = (X p, Y p)"
    using loopBody_step [of garden p b p'] that by auto
  have 4: "0 \<le> ShoeMoistureContent (snd (loopBody garden p b)) \<and>
      ShoeMoistureContent (snd (loopBody garden p b)) \<le> 5"
    if "0 \<le> ShoeMoistureContent p \<and> ShoeMoistureContent p \<le> 5"
    using loopBody_damp [of p garden b] that by (simp add: damp_def)
  from 1 2 3 4 show ?thesis by blast
qed

lemma classify_keys:
  "classify ''q'' = TakeLeft" "classify ''Q'' = TakeLeft" "classify ''d'' = TakeRight"
  "classify ''s'' = TakeDown" "classify ''x'' = TakeDefault"
  by code_simp+

lemma isQuit_keys: "isQuit ''q''" "isQuit ''Q''"
  by code_simp+

lemma stream_statuses:
  "Contains (StatusLine (streamCell t)) ''stream''"
  "\<not> Contains (StatusLine breezeCell) ''stream''"
  "\<not> Contains (StatusLine (signCell geo55)) ''stream''"
  by (simp_all add: streamCell_def breezeCell_def signCell_def geo55_def FullName_def)

text \<open>Four steps to the right along row 0 of the garden of seed 0: onto the stream at
  column 1 (moisture 5), then 4, 3 and 2; an unknown key changes nothing.\<close>

theorem moisture_bounded_witness:
  "stroll ''@'' geo55 garden0 [Got ''d'', Got ''d'', Got ''d'', Got ''d''] =
     (WaitingInRead, (newPlayer ''@'' geo55)\<lparr>X := 4, ShoeMoistureContent := 2\<rparr>) \<and>
   0 \<le> ShoeMoistureContent ((newPlayer ''@'' geo55)\<lparr>X := 4, ShoeMoistureContent := 2\<rparr>) \<and>
   ShoeMoistureContent ((newPlayer ''@'' geo55)\<lparr>X := 4, ShoeMoistureContent := 2\<rparr>) \<le> 5 \<and>
   loopBody garden0 (newPlayer ''@'' geo55) ''d'' =
     (Continue, (newPlayer ''@'' geo55)\<lparr>X := 1, ShoeMoistureContent := 5\<rparr>) \<and>
   cellAt garden0 0 1 = Inr (streamCell 0) \<and>
   Contains (StatusLine (streamCell 0)) ''stream'' \<and>
   loopBody garden0 ((newPlayer ''@'' geo55)\<lparr>X := 1, ShoeMoistureContent := 5\<rparr>) ''d'' =
     (Continue, (newPlayer ''@'' geo55)\<lparr>X := 2, ShoeMoistureContent := 4\<rparr>) \<and>
   loopBody garden0 (newPlayer ''@'' geo55) ''x'' = (Continue, newPlayer ''@'' geo55)"
proof -
  let ?in = "[Got ''d'', Got ''d'', Got ''d'', Got ''d'']"
  have ev: "walk garden0 (newPlayer ''@'' geo55) DirRight =
      (Continue, (newPlayer ''@'' geo55)\<lparr>X := 1, ShoeMoistureContent := 5\<rparr>)"
    "walk garden0 ((newPlayer ''@'' geo55)\<lparr>X := 1, ShoeMoistureContent := 5\<rparr>) DirRight =
      (Continue, (newPlayer ''@'' geo55)\<lparr>X := 2, ShoeMoistureContent := 4\<rparr>)"
    "walk garden0 ((newPlayer ''@'' geo55)\<lparr>X := 2, ShoeMoistureContent := 4\<rparr>) DirRight =
      (Continue, (newPlayer ''@'' geo55)\<lparr>X := 3, ShoeMoistureContent := 3\<rparr>)"
    "walk garden0 ((newPlayer ''@'' geo55)\<lparr>X := 3, ShoeMoistureContent := 3\<rparr>) DirRight =
      (Continue, (newPlayer ''@'' geo55)\<lparr>X := 4, ShoeMoistureContent := 2\<rparr>)"
    by (simp_all add: walk_def move_def Dir_defs newPlayer_def cellAt_def garden0_def wetten_def
        stream_statuses, simp_all add: geo55_def)
  have dr: "drawGarden garden0 (newPlayer ''@'' geo55) = newPlayer ''@'' geo55"
    by (simp add: drawGarden_def garden0_def newPlayer_def wetten_def stream_statuses)
  have st: "stroll ''@'' geo55 garden0 ?in =
     (WaitingInRead, (newPlayer ''@'' geo55)\<lparr>X := 4, ShoeMoistureContent := 2\<rparr>)"
    by (simp add: stroll_def dr loopBody_right classify_keys ev)
  note T = moisture_bounded [of "''@''" geo55 garden0 ?in "newPlayer ''@'' geo55" "''d''"
      "(newPlayer ''@'' geo55)\<lparr>X := 1, ShoeMoistureContent := 5\<rparr>"]
  from T have "0 \<le> ShoeMoistureContent (snd (stroll ''@'' geo55 garden0 ?in)) \<and>
      ShoeMoistureContent (snd (stroll ''@'' geo55 garden0 ?in)) \<le> 5"
    by blast
  then have b: "0 \<le> ShoeMoistureContent ((newPlayer ''@'' geo55)\<lparr>X := 4, ShoeMoistureContent := 2\<rparr>) \<and>
      ShoeMoistureContent ((newPlayer ''@'' geo55)\<lparr>X := 4, ShoeMoistureContent := 2\<rparr>) \<le> 5"
    by (simp only: st snd_conv)
  have l1: "loopBody garden0 (newPlayer ''@'' geo55) ''d'' =
     (Continue, (newPlayer ''@'' geo55)\<lparr>X := 1, ShoeMoistureContent := 5\<rparr>)"
    by (simp add: loopBody_right classify_keys ev)
  have l2: "loopBody garden0 ((newPlayer ''@'' geo55)\<lparr>X := 1, ShoeMoistureContent := 5\<rparr>) ''d'' =
     (Continue, (newPlayer ''@'' geo55)\<lparr>X := 2, ShoeMoistureContent := 4\<rparr>)"
    by (simp add: loopBody_right classify_keys ev)
  have c: "cellAt garden0 0 1 = Inr (streamCell 0)"
    by (simp add: cellAt_def garden0_def)
  have x: "loopBody garden0 (newPlayer ''@'' geo55) ''x'' = (Continue, newPlayer ''@'' geo55)"
    by (simp add: loopBody_still direction_def classify_keys)
  from st b l1 c stream_statuses(1) l2 x show ?thesis by blast
qed

section \<open>The quit key and the ways out of the loop\<close>

lemma classify_never_quit: "classify b \<noteq> TakeQuit"
  by (simp add: classify_def isLeft_def isQuit_def)

lemma gameLoop_never_quits: "fst (gameLoop garden p input) \<noteq> ReturnedAfterQuit"
proof (induction garden p input rule: gameLoop.induct)
  case (3 garden player b rest)
  obtain c p' where l: "loopBody garden player b = (c, p')"
    by (cases "loopBody garden player b")
  with loopBody_not_Break [of garden player b] have nb: "c \<noteq> Break" by simp
  show ?case
  proof (cases c)
    case Continue
    with l "3.IH" show ?thesis by auto
  next
    case Break
    with nb show ?thesis by simp
  next
    case (Panic e)
    with l show ?thesis by simp
  qed
qed simp_all

lemma gameLoop_read_error:
  "fst (gameLoop garden p input) = ReturnedReadError \<Longrightarrow> Failed \<in> set input"
proof (induction garden p input rule: gameLoop.induct)
  case (3 garden player b rest)
  obtain c p' where l: "loopBody garden player b = (c, p')"
    by (cases "loopBody garden player b")
  show ?case
  proof (cases c)
    case Continue
    with l "3.IH" "3.prems" show ?thesis by auto
  next
    case Break
    with l "3.prems" show ?thesis by simp
  next
    case (Panic e)
    with l "3.prems" show ?thesis by simp
  qed
qed simp_all

text \<open>
  Claim C1. Every buffer that satisfies \<open>isQuit\<close> satisfies \<open>isLeft\<close>, which the
  \<^verbatim>\<open>switch\<close> tests first, so no buffer takes the quit branch, no pass of the loop body
  ends in the \<^verbatim>\<open>break\<close>, and the loop never returns after a quit; when it returns the
  read error, a read has failed (lemmas \<open>classify_never_quit\<close>,
  \<open>loopBody_not_Break\<close>, \<open>gameLoop_never_quits\<close>, \<open>gameLoop_read_error\<close>). The loop
  has one more way out, which the claim excludes: \<^verbatim>\<open>garden[player.Y][player.X]\<close> of line
  238 panics when the player steps to a position the garden does not have. \<open>move\<close>
  bounds the player by the geometry, and the \<^verbatim>\<open>break\<close> of line 323 returns a garden
  with fewer rows. For a repository with one commit the garden is empty, and the first
  step to the right ends the session in a panic, with no read error.
\<close>

theorem walk_off_the_garden:
  "classify ''q'' = TakeLeft \<and> classify ''Q'' = TakeLeft \<and>
   plantGarden lcg 0 oneCommit geo55 = Inr [] \<and>
   stroll ''@'' geo55 [] [Got ''d''] =
     (Panicked IndexOutOfRange, (newPlayer ''@'' geo55)\<lparr>X := 1\<rparr>) \<and>
   Failed \<notin> set [Got ''d'']"
proof -
  have g: "plantGarden lcg 0 oneCommit geo55 = Inr []"
    by (simp add: plant_eval geo55_def oneCommit_def planted_def)
  have w: "walk [] (newPlayer ''@'' geo55) DirRight =
      (Panic IndexOutOfRange, (newPlayer ''@'' geo55)\<lparr>X := 1\<rparr>)"
    by (simp add: walk_def move_def Dir_defs newPlayer_def cellAt_def geo55_def)
  have s: "stroll ''@'' geo55 [] [Got ''d''] =
     (Panicked IndexOutOfRange, (newPlayer ''@'' geo55)\<lparr>X := 1\<rparr>)"
    by (simp add: stroll_def drawGarden_def loopBody_right classify_keys w)
  from classify_keys(1,2) g s show ?thesis by simp
qed

section \<open>Determinism of the generator\<close>

lemma sameDraws_Float64:
  assumes "sameDraws R1 R2 rel" and "rel s1 s2"
  shows "fst (Float64 R1 s1) = fst (Float64 R2 s2)"
    and "rel (snd (Float64 R1 s1)) (snd (Float64 R2 s2))"
  using assms by (simp_all add: sameDraws_def)

lemma sameDraws_Intn:
  assumes "sameDraws R1 R2 rel" and "rel s1 s2"
  shows "fst (Intn R1 s1 n) = fst (Intn R2 s2 n)"
    and "rel (snd (Intn R1 s1 n)) (snd (Intn R2 s2 n))"
  using assms by (simp_all add: sameDraws_def)

lemma plantCell_same:
  assumes "sameDraws R1 R2 rel" and "samePlanting rel st1 st2"
  shows "sameOutcome rel (plantCell R1 cs geo y x st1) (plantCell R2 cs geo y x st2)"
proof -
  from assms(2) have r: "rel (rnd st1) (rnd st2)" and
    eq: "cellIx st1 = cellIx st2" "streamIx st1 = streamIx st2" "tint st1 = tint st2"
    by (simp_all add: samePlanting_def)
  note f = sameDraws_Float64 [OF assms(1) r]
  obtain d1 n1 where d1: "Float64 R1 (rnd st1) = (d1, n1)" by (cases "Float64 R1 (rnd st1)")
  obtain d2 n2 where d2: "Float64 R2 (rnd st2) = (d2, n2)" by (cases "Float64 R2 (rnd st2)")
  from f d1 d2 have d: "d1 = d2" "rel n1 n2" by simp_all
  let ?tree = "(y > 0 \<and> (x = 0 \<or> x = Width geo - 1)) \<or> y = Height geo - 1"
  consider (tree) "?tree"
    | (stream) "\<not> ?tree" "x = streamIx st1"
    | (top) "\<not> ?tree" "x \<noteq> streamIx st1" "y = 0"
    | (spent) "\<not> ?tree" "x \<noteq> streamIx st1" "y \<noteq> 0" "cellIx st1 = int (length cs) - 1"
    | (draw) "\<not> ?tree" "x \<noteq> streamIx st1" "y \<noteq> 0" "cellIx st1 \<noteq> int (length cs) - 1"
    by blast
  then show ?thesis
  proof cases
    case tree
    with assms(2) show ?thesis
      by (auto simp: plantCell_def sameOutcome_def)
  next
    case stream
    with eq d r show ?thesis
      by (auto simp: plantCell_def sameOutcome_def samePlanting_def Let_def d1 d2)
  next
    case top
    with eq assms(2) show ?thesis
      by (auto simp: plantCell_def sameOutcome_def)
  next
    case spent
    with eq assms(2) show ?thesis
      by (auto simp: plantCell_def sameOutcome_def)
  next
    case draw
    with eq d r show ?thesis
      by (auto simp: plantCell_def sameOutcome_def samePlanting_def Let_def d1 d2)
  qed
qed

lemma plantRow_same:
  assumes "sameDraws R1 R2 rel" and "samePlanting rel st1 st2"
  shows "sameOutcome rel (plantRow R1 cs geo y x st1 row) (plantRow R2 cs geo y x st2 row)"
  using assms
proof (induction R1 cs geo y x st1 row arbitrary: st2 rule: plantRow.induct)
  case (1 R1 commits geo y x st1 row)
  show ?case
  proof (cases "x < Width geo")
    case False
    with "1.prems"(2) show ?thesis
      by (simp add: plantRow.simps [of _ _ _ _ x] sameOutcome_def)
  next
    case True
    note C = plantCell_same [OF "1.prems", of commits geo y x]
    show ?thesis
    proof (cases "plantCell R1 commits geo y x st1")
      case (Inl e)
      with C have "plantCell R2 commits geo y x st2 = Inl e"
        by (simp add: sameOutcome_def)
      with Inl True show ?thesis
        by (simp add: plantRow.simps [of _ _ _ _ x] sameOutcome_def)
    next
      case (Inr p)
      obtain c st1' where p: "p = (c, st1')" by (cases p)
      with Inr C obtain st2' where
        c2: "plantCell R2 commits geo y x st2 = Inr (c, st2')" and s: "samePlanting rel st1' st2'"
        by (auto simp: sameOutcome_def split: sum.splits)
      from "1.IH" [OF True Inr p [symmetric] "1.prems"(1) s]
      have "sameOutcome rel (plantRow R1 commits geo y (x + 1) st1' (row @ [c]))
              (plantRow R2 commits geo y (x + 1) st2' (row @ [c]))" .
      with True Inr p c2 show ?thesis
        by (simp add: plantRow.simps [of _ _ _ _ x])
    qed
  qed
qed

lemma plantRows_same:
  assumes "sameDraws R1 R2 rel" and "samePlanting rel st1 st2"
  shows "sameOutcome rel (plantRows R1 cs geo y st1 g) (plantRows R2 cs geo y st2 g)"
  using assms
proof (induction R1 cs geo y st1 g arbitrary: st2 rule: plantRows.induct)
  case (1 R1 commits geo y st1 garden)
  from "1.prems"(2) have ix: "cellIx st2 = cellIx st1"
    by (simp add: samePlanting_def)
  show ?case
  proof (cases "y < Height geo \<and> cellIx st1 \<noteq> int (length commits) - 1")
    case False
    with "1.prems"(2) ix show ?thesis
      by (auto simp: plantRows.simps [of _ _ _ y] sameOutcome_def)
  next
    case True
    then have lt: "y < Height geo" and ns: "cellIx st1 \<noteq> int (length commits) - 1"
      by simp_all
    note C = plantRow_same [OF "1.prems", of commits geo y 0 "[]"]
    show ?thesis
    proof (cases "plantRow R1 commits geo y 0 st1 []")
      case (Inl e)
      with C have "plantRow R2 commits geo y 0 st2 [] = Inl e"
        by (simp add: sameOutcome_def)
      with Inl lt ns ix show ?thesis
        by (simp add: plantRows.simps [of _ _ _ y] sameOutcome_def)
    next
      case (Inr p)
      obtain row st1' where p: "p = (row, st1')" by (cases p)
      with Inr C obtain st2' where
        c2: "plantRow R2 commits geo y 0 st2 [] = Inr (row, st2')" and s: "samePlanting rel st1' st2'"
        by (auto simp: sameOutcome_def split: sum.splits)
      from "1.IH" [OF lt ns Inr p [symmetric] "1.prems"(1) s]
      have "sameOutcome rel (plantRows R1 commits geo (y + 1) st1' (garden @ [row]))
              (plantRows R2 commits geo (y + 1) st2' (garden @ [row]))" .
      with lt ns ix Inr p c2 show ?thesis
        by (simp add: plantRows.simps [of _ _ _ y])
    qed
  qed
qed

lemma plantGarden_same:
  assumes "sameDraws R1 R2 rel" and "rel s1 s2"
  shows "plantGarden R1 s1 cs geo = plantGarden R2 s2 cs geo"
proof (cases "Width geo - 1 \<le> 0")
  case True
  then show ?thesis
    by (simp add: plantGarden_def startPlanting_def)
next
  case False
  note i = sameDraws_Intn [OF assms, of "Width geo - 1"]
  obtain r1 n1 where d1: "Intn R1 s1 (Width geo - 1) = (r1, n1)" by (cases "Intn R1 s1 (Width geo - 1)")
  obtain r2 n2 where d2: "Intn R2 s2 (Width geo - 1) = (r2, n2)" by (cases "Intn R2 s2 (Width geo - 1)")
  from i d1 d2 have d: "r1 = r2" "rel n1 n2" by simp_all
  define ix where "ix = (if r2 = quot (Width geo) 2 then r2 - 1 else r2)"
  let ?st1 = "\<lparr>cellIx = 0, streamIx = ix, tint = 0, rnd = n1\<rparr>"
  let ?st2 = "\<lparr>cellIx = 0, streamIx = ix, tint = 0, rnd = n2\<rparr>"
  from False d1 d have a: "startPlanting R1 geo s1 = Inr ?st1"
    by (simp add: startPlanting_def ix_def)
  from False d2 have b: "startPlanting R2 geo s2 = Inr ?st2"
    by (simp add: startPlanting_def ix_def)
  from d have "samePlanting rel ?st1 ?st2"
    by (simp add: samePlanting_def)
  from plantRows_same [OF assms(1) this, of cs geo 0 "[]"]
  show ?thesis
    unfolding plantGarden_def a b
    by (auto simp: sameOutcome_def split: sum.splits)
qed

text \<open>
  Claim C3. The generator is deterministic: two runs with the same seed, the same
  geometry and the same commits return the same garden, cell for cell (or the same
  panic). More generally the garden depends on the random source only through the
  draws: two sources that deliver the same draws from their seeded states return the
  same garden.
\<close>

theorem generator_deterministic:
  "(seed1 = seed2 \<and> geo1 = geo2 \<and> commits1 = commits2 \<longrightarrow>
      seededGarden R seed1 commits1 geo1 = seededGarden R seed2 commits2 geo2) \<and>
   (sameDraws R1 R2 rel \<and> rel (Seed R1 seed) (Seed R2 seed) \<longrightarrow>
      seededGarden R1 seed commits geo = seededGarden R2 seed commits geo)"
proof (intro conjI impI)
  assume "seed1 = seed2 \<and> geo1 = geo2 \<and> commits1 = commits2"
  then show "seededGarden R seed1 commits1 geo1 = seededGarden R seed2 commits2 geo2"
    by simp
next
  assume "sameDraws R1 R2 rel \<and> rel (Seed R1 seed) (Seed R2 seed)"
  then have d: "sameDraws R1 R2 rel" and r: "rel (Seed R1 seed) (Seed R2 seed)"
    by simp_all
  show "seededGarden R1 seed commits geo = seededGarden R2 seed commits geo"
    unfolding seededGarden_def by (rule plantGarden_same [OF d r])
qed

lemma sameDraws_counted: "sameDraws lcg counted (\<lambda>s t. s = fst t)"
  by (simp add: sameDraws_def counted_def split_beta)

text \<open>Seed 3 plants \<open>garden3\<close>, from the source \<open>lcg\<close> and from the source that counts its draws.\<close>

theorem generator_deterministic_witness:
  "(3::int) = 1 + 2 \<and> threeCommits = take 3 threeCommits \<and>
   seededGarden lcg 3 threeCommits geo55 = seededGarden lcg (1 + 2) (take 3 threeCommits) geo55 \<and>
   sameDraws lcg counted (\<lambda>s t. s = fst t) \<and> Seed lcg 3 = fst (Seed counted 3) \<and>
   seededGarden lcg 3 threeCommits geo55 = Inr garden3 \<and>
   seededGarden counted 3 threeCommits geo55 = Inr garden3"
proof -
  have c: "threeCommits = take 3 threeCommits"
    by (simp add: threeCommits_def)
  have s: "(3::int) = 1 + 2" by simp
  have r: "Seed lcg 3 = fst (Seed counted 3)"
    by (simp add: counted_def)
  have e: "seededGarden lcg 3 threeCommits geo55 = Inr garden3"
    using garden3_planted by (simp add: seededGarden_def lcg_def)
  note T = generator_deterministic [where R = lcg and ?seed1.0 = 3 and ?seed2.0 = "1 + 2"
      and ?geo1.0 = geo55 and ?geo2.0 = geo55 and ?commits1.0 = threeCommits
      and ?commits2.0 = "take 3 threeCommits" and ?R1.0 = lcg and ?R2.0 = counted
      and rel = "\<lambda>s t. s = fst t" and seed = 3 and commits = threeCommits and geo = geo55]
  from T s c have 1: "seededGarden lcg 3 threeCommits geo55 =
      seededGarden lcg (1 + 2) (take 3 threeCommits) geo55"
    by blast
  from T sameDraws_counted r
  have "seededGarden lcg 3 threeCommits geo55 = seededGarden counted 3 threeCommits geo55"
    by blast
  with e have 2: "seededGarden counted 3 threeCommits geo55 = Inr garden3" by simp
  from s c 1 sameDraws_counted r e 2 show ?thesis by blast
qed

end
